(* ===== verification/Prelude.thy ===== *)
theory Prelude
  imports Main "HOL-Library.Word" "HOL-Library.Char_ord" "HOL-Library.List_Lexorder"
    "HOL-Library.Sublist"
begin

text \<open>
  The shared vocabulary of the development.

  Rust's \<^verbatim>\<open>String\<close> and \<^verbatim>\<open>&str\<close> are byte strings here (\<^typ>\<open>string\<close>, one \<^typ>\<open>char\<close>
  per UTF-8 byte), so \<^verbatim>\<open>len()\<close> is \<^const>\<open>length\<close> and byte order is the lexicographic
  order of \<^typ>\<open>char list\<close>.  \<^verbatim>\<open>u32\<close> and \<^verbatim>\<open>u64\<close> are words; \<^verbatim>\<open>i64\<close> is an \<^typ>\<open>int\<close>
  whose range is written out where it matters.  \<^verbatim>\<open>Result<T, E>\<close> is \<open>'e + 't\<close>.

  The theory holds the little-endian and length-prefixed byte encodings, lower-case
  hexadecimal, decimal rendering, white-space trimming of UTF-8 text, saturating
  arithmetic, and the two interfaces that several components implement: a closed wire
  vocabulary, and a state machine whose legal moves only climb.
\<close>

type_synonym u8 = "8 word"
type_synonym u16 = "16 word"
type_synonym u32 = "32 word"
type_synonym u64 = "64 word"
type_synonym i64 = int
type_synonym str = string

named_theorems wire \<open>equations that evaluate wire strings and closed vocabularies\<close>
named_theorems enc_simps \<open>byte-encoding lengths and inverses\<close>

subsection \<open>Little-endian integers and length-prefixed fields\<close>

fun le_bytes :: "nat \<Rightarrow> nat \<Rightarrow> str" where
  "le_bytes 0 n = []"
| "le_bytes (Suc k) n = char_of (n mod 256) # le_bytes k (n div 256)"

definition u64_le :: "nat \<Rightarrow> str" where
  "u64_le n = le_bytes 8 n"

definition i64_le :: "i64 \<Rightarrow> str" where
  "i64_le x = le_bytes 8 (nat (x mod 2 ^ 64))"

definition i64_ok :: "i64 \<Rightarrow> bool" where
  "i64_ok x \<longleftrightarrow> - (2 ^ 63) \<le> x \<and> x < 2 ^ 63"

definition lp_field :: "str \<Rightarrow> str" where
  "lp_field s = u64_le (length s) @ s"

definition lp_concat :: "str list \<Rightarrow> str" where
  "lp_concat fs = concat (map lp_field fs)"

definition str_ok :: "str \<Rightarrow> bool" where
  "str_ok s \<longleftrightarrow> length s < 2 ^ 64"

lemma length_le_bytes [simp, enc_simps]: "length (le_bytes k n) = k"
  by (induction k arbitrary: n) auto

lemma length_u64_le [simp, enc_simps]: "length (u64_le n) = 8"
  by (simp add: u64_le_def)

lemma length_i64_le [simp, enc_simps]: "length (i64_le x) = 8"
  by (simp add: i64_le_def)

lemma char_of_mod256_eq:
  "char_of (m mod 256 :: nat) = (char_of (n mod 256) :: char) \<longleftrightarrow> m mod 256 = n mod 256"
  by (metis mod_mod_trivial of_char_of)

lemma le_bytes_inj:
  "le_bytes k m = le_bytes k n \<Longrightarrow> m < 256 ^ k \<Longrightarrow> n < 256 ^ k \<Longrightarrow> m = n"
proof (induction k arbitrary: m n)
  case 0
  then show ?case by simp
next
  case (Suc k)
  from Suc.prems have "m mod 256 = n mod 256" and rest: "le_bytes k (m div 256) = le_bytes k (n div 256)"
    by (auto simp: char_of_mod256_eq)
  moreover from Suc.prems(2,3) have "m div 256 < 256 ^ k" "n div 256 < 256 ^ k"
    by (auto simp: less_mult_imp_div_less mult.commute)
  with rest have "m div 256 = n div 256"
    by (rule Suc.IH)
  ultimately show ?case
    by (metis div_mult_mod_eq)
qed

lemma u64_le_inj: "u64_le m = u64_le n \<Longrightarrow> m < 2 ^ 64 \<Longrightarrow> n < 2 ^ 64 \<Longrightarrow> m = n"
  unfolding u64_le_def by (rule le_bytes_inj) auto

lemma i64_le_inj:
  assumes eq: "i64_le x = i64_le y" and x: "i64_ok x" and y: "i64_ok y"
  shows "x = y"
proof -
  have "nat (x mod 2 ^ 64) = nat (y mod 2 ^ 64)"
    using eq unfolding i64_le_def by (rule le_bytes_inj) (auto simp: nat_less_iff)
  then have "x mod 2 ^ 64 = y mod 2 ^ 64"
    by (simp add: nat_eq_iff)
  then have "(x + 2 ^ 63) mod 2 ^ 64 = (y + 2 ^ 63) mod 2 ^ 64"
    by (metis mod_add_left_eq)
  with x y show ?thesis
    by (simp add: i64_ok_def)
qed

lemma lp_field_append_inj:
  assumes "lp_field s @ t = lp_field s' @ t'" and "str_ok s" and "str_ok s'"
  shows "s = s' \<and> t = t'"
proof -
  from assms(1) have "u64_le (length s) @ (s @ t) = u64_le (length s') @ (s' @ t')"
    by (simp add: lp_field_def)
  then have "u64_le (length s) = u64_le (length s')" and st: "s @ t = s' @ t'"
    by simp_all
  with assms(2,3) have "length s = length s'"
    by (auto simp: str_ok_def intro: u64_le_inj)
  with st show ?thesis by simp
qed

lemma lp_concat_Nil [simp]: "lp_concat [] = []"
  by (simp add: lp_concat_def)

lemma lp_concat_Cons: "lp_concat (f # fs) = lp_field f @ lp_concat fs"
  by (simp add: lp_concat_def)

lemma lp_concat_inj:
  "lp_concat fs = lp_concat gs \<Longrightarrow> length fs = length gs \<Longrightarrow>
   \<forall>f \<in> set fs. str_ok f \<Longrightarrow> \<forall>g \<in> set gs. str_ok g \<Longrightarrow> fs = gs"
proof (induction fs arbitrary: gs)
  case Nil
  then show ?case by simp
next
  case (Cons f fs)
  then obtain g gs' where gs: "gs = g # gs'"
    by (cases gs) auto
  from Cons.prems have "f = g \<and> lp_concat fs = lp_concat gs'"
    unfolding gs by (intro lp_field_append_inj) (auto simp: lp_concat_Cons)
  with Cons.IH [of gs'] Cons.prems show ?case
    unfolding gs by auto
qed

subsection \<open>Lower-case hexadecimal\<close>

definition hex_digit :: "nat \<Rightarrow> char" where
  "hex_digit n = ''0123456789abcdef'' ! n"

definition hex_encode :: "str \<Rightarrow> str" where
  "hex_encode bs = concat (map (\<lambda>b. [hex_digit (of_char b div 16), hex_digit (of_char b mod 16)]) bs)"

lemma hex_digit_inj: "hex_digit m = hex_digit n \<Longrightarrow> m < 16 \<Longrightarrow> n < 16 \<Longrightarrow> m = n"
proof -
  have "distinct ''0123456789abcdef''" by simp
  moreover assume "hex_digit m = hex_digit n" "m < 16" "n < 16"
  ultimately show "m = n"
    unfolding hex_digit_def by (subst (asm) nth_eq_iff_index_eq) simp_all
qed

lemma of_char_lt_256: "(of_char (c :: char) :: nat) < 256"
  by (metis of_char_mod_256 mod_less_divisor zero_less_numeral)

lemma of_char_div16: "(of_char (c :: char) :: nat) div 16 < 16"
  using of_char_lt_256 [of c] by (simp add: less_mult_imp_div_less)

lemma hex_encode_simps [simp]:
  "hex_encode [] = []"
  "hex_encode (b # bs) = hex_digit (of_char b div 16) # hex_digit (of_char b mod 16) # hex_encode bs"
  by (simp_all add: hex_encode_def)

lemma hex_encode_eq_Nil [simp]: "hex_encode bs = [] \<longleftrightarrow> bs = []"
  by (cases bs) auto

lemma length_hex_encode [simp]: "length (hex_encode bs) = 2 * length bs"
  by (induction bs) auto

lemma hex_encode_inj: "hex_encode xs = hex_encode ys \<Longrightarrow> xs = ys"
proof (induction xs arbitrary: ys)
  case Nil
  then show ?case by (metis hex_encode_eq_Nil hex_encode_simps(1))
next
  case (Cons x xs)
  then obtain y ys' where ys: "ys = y # ys'"
    by (cases ys) auto
  have "of_char x div 16 = (of_char y div 16 :: nat)" "of_char x mod 16 = (of_char y mod 16 :: nat)"
    using Cons.prems unfolding ys by (auto intro: hex_digit_inj simp: of_char_div16)
  then have "(of_char x :: nat) = of_char y"
    by (metis div_mult_mod_eq)
  then have "x = y" by simp
  with Cons show ?case unfolding ys by simp
qed

subsection \<open>Decimal rendering (\<^verbatim>\<open>to_string\<close> on integers)\<close>

fun show_nat :: "nat \<Rightarrow> str" where
  "show_nat n = (if n < 10 then [char_of (48 + n)] else show_nat (n div 10) @ [char_of (48 + n mod 10)])"

declare show_nat.simps [simp del]

definition show_int :: "int \<Rightarrow> str" where
  "show_int x = (if x < 0 then ''-'' @ show_nat (nat (- x)) else show_nat (nat x))"

definition is_digit_char :: "char \<Rightarrow> bool" where
  "is_digit_char c \<longleftrightarrow> 48 \<le> (of_char c :: nat) \<and> (of_char c :: nat) \<le> 57"

fun read_digits :: "nat \<Rightarrow> str \<Rightarrow> nat" where
  "read_digits acc [] = acc"
| "read_digits acc (c # cs) = read_digits (10 * acc + (of_char c - 48)) cs"

lemma read_digits_append: "read_digits acc (xs @ ys) = read_digits (read_digits acc xs) ys"
  by (induction xs arbitrary: acc) auto

lemma read_show_nat: "read_digits 0 (show_nat n) = n"
proof (induction n rule: show_nat.induct)
  case (1 n)
  then show ?case
    by (cases "n < 10") (auto simp: show_nat.simps [of n] read_digits_append)
qed

lemma show_nat_inj: "show_nat m = show_nat n \<Longrightarrow> m = n"
  by (metis read_show_nat)

lemma show_nat_digits: "c \<in> set (show_nat n) \<Longrightarrow> is_digit_char c"
proof (induction n rule: show_nat.induct)
  case (1 n)
  then show ?case
    by (cases "n < 10") (auto simp: show_nat.simps [of n] is_digit_char_def)
qed

lemma show_nat_not_Nil [simp]: "show_nat n \<noteq> []"
  by (subst show_nat.simps) simp

subsection \<open>White space (\<^verbatim>\<open>str::trim\<close>)\<close>

text \<open>
  \<^verbatim>\<open>trim\<close> removes the code points with the Unicode \<^verbatim>\<open>White_Space\<close> property.  On UTF-8
  bytes they are the one-byte controls and the space, two two-byte sequences (U+0085,
  U+00A0) and the three-byte sequences of U+1680, U+2000 to U+200A, U+2028, U+2029,
  U+202F, U+205F and U+3000.  No white-space sequence is a proper prefix or suffix of
  another character's encoding, so peeling byte sequences off either end is peeling
  characters.
\<close>

definition byte_is :: "nat \<Rightarrow> char \<Rightarrow> bool" where
  "byte_is n c \<longleftrightarrow> (of_char c :: nat) = n"

definition ws1 :: "char \<Rightarrow> bool" where
  "ws1 c \<longleftrightarrow> (let n = (of_char c :: nat) in (9 \<le> n \<and> n \<le> 13) \<or> n = 32)"

definition ws2 :: "char \<Rightarrow> char \<Rightarrow> bool" where
  "ws2 a b \<longleftrightarrow> byte_is 194 a \<and> (byte_is 133 b \<or> byte_is 160 b)"

definition ws3 :: "char \<Rightarrow> char \<Rightarrow> char \<Rightarrow> bool" where
  "ws3 a b c \<longleftrightarrow>
     (byte_is 225 a \<and> byte_is 154 b \<and> byte_is 128 c) \<or>
     (byte_is 226 a \<and> byte_is 128 b \<and>
        (let n = (of_char c :: nat) in (128 \<le> n \<and> n \<le> 138) \<or> n = 168 \<or> n = 169 \<or> n = 175)) \<or>
     (byte_is 226 a \<and> byte_is 129 b \<and> byte_is 159 c) \<or>
     (byte_is 227 a \<and> byte_is 128 b \<and> byte_is 128 c)"

fun trim_start :: "str \<Rightarrow> str" where
  "trim_start [] = []"
| "trim_start (a # s) =
     (if ws1 a then trim_start s
      else case s of
        [] \<Rightarrow> a # s
      | b # t \<Rightarrow>
         (if ws2 a b then trim_start t
          else case t of [] \<Rightarrow> a # s | c # u \<Rightarrow> (if ws3 a b c then trim_start u else a # s)))"

text \<open>The same peeling over the reversed bytes.\<close>

fun trim_start_rev :: "str \<Rightarrow> str" where
  "trim_start_rev [] = []"
| "trim_start_rev (a # s) =
     (if ws1 a then trim_start_rev s
      else case s of
        [] \<Rightarrow> a # s
      | b # t \<Rightarrow>
         (if ws2 b a then trim_start_rev t
          else case t of [] \<Rightarrow> a # s | c # u \<Rightarrow> (if ws3 c b a then trim_start_rev u else a # s)))"

definition trim_end :: "str \<Rightarrow> str" where
  "trim_end s = rev (trim_start_rev (rev s))"

definition trim :: "str \<Rightarrow> str" where
  "trim s = trim_end (trim_start s)"

lemma trim_Nil [simp]: "trim [] = []"
  by (simp add: trim_def trim_end_def)

definition to_ascii_lowercase :: "str \<Rightarrow> str" where
  "to_ascii_lowercase =
     map (\<lambda>c. if 65 \<le> (of_char c :: nat) \<and> (of_char c :: nat) \<le> 90 then char_of (of_char c + 32 :: nat) else c)"

definition str_contains :: "str \<Rightarrow> str \<Rightarrow> bool" where
  "str_contains s pat \<longleftrightarrow> sublist pat s"

subsection \<open>Saturating arithmetic\<close>

definition sat_add :: "'a::len word \<Rightarrow> 'a word \<Rightarrow> 'a word" where
  "sat_add a b = (if unat a + unat b < 2 ^ LENGTH('a) then a + b else - 1)"

lemma unat_sat_add: "unat (sat_add a (b :: 'a::len word)) = min (unat a + unat b) (2 ^ LENGTH('a) - 1)"
proof (cases "unat a + unat b < 2 ^ LENGTH('a)")
  case True
  then show ?thesis by (simp add: sat_add_def unat_add_lem [THEN iffD1])
next
  case False
  then show ?thesis by (simp add: sat_add_def unsigned_minus_1_eq_mask mask_eq_exp_minus_1)
qed

lemma sat_add_ge: "a \<le> sat_add a b"
proof -
  have "unat a \<le> 2 ^ LENGTH('a) - 1"
    using unsigned_less [of a] by (metis One_nat_def Suc_pred less_Suc_eq_le zero_less_numeral zero_less_power)
  then show ?thesis by (simp add: word_le_nat_alt unat_sat_add)
qed

definition sat_add_i64 :: "i64 \<Rightarrow> i64 \<Rightarrow> i64" where
  "sat_add_i64 a b = max (- (2 ^ 63)) (min (2 ^ 63 - 1) (a + b))"

subsection \<open>Interface: a closed wire vocabulary\<close>

text \<open>
  Many Rust enums of the program carry an \<^verbatim>\<open>as_str\<close>, an exact-match \<^verbatim>\<open>parse\<close> and an
  \<^verbatim>\<open>ALL\<close> table.  The laws below are what a wire format relies on: parsing inverts
  rendering, nothing but a rendered member parses, and the table lists every member once.
\<close>

locale closed_vocabulary =
  fixes as_wire :: "'a \<Rightarrow> str"
    and of_wire :: "str \<Rightarrow> 'a option"
    and members :: "'a list"
  assumes of_wire_as_wire: "of_wire (as_wire x) = Some x"
    and as_wire_of_wire: "of_wire s = Some x \<Longrightarrow> as_wire x = s"
    and members_complete: "x \<in> set members"
    and members_distinct: "distinct members"
begin

lemma as_wire_inj: "as_wire x = as_wire y \<longleftrightarrow> x = y"
  by (metis of_wire_as_wire option.inject)

lemma of_wire_iff: "of_wire s = Some x \<longleftrightarrow> s = as_wire x"
  using as_wire_of_wire of_wire_as_wire by blast

lemma of_wire_None_iff: "of_wire s = None \<longleftrightarrow> s \<notin> as_wire ` set members"
  using members_complete by (auto simp: of_wire_as_wire) (metis as_wire_of_wire imageI not_None_eq)

lemma wire_words_distinct: "distinct (map as_wire members)"
  by (simp add: distinct_map members_distinct inj_on_def as_wire_inj)

lemma vocabulary_laws:
  "(\<forall>x. of_wire (as_wire x) = Some x) \<and> (\<forall>s x. of_wire s = Some x \<longrightarrow> as_wire x = s) \<and>
   distinct (map as_wire members) \<and> (\<forall>s. of_wire s = None \<longleftrightarrow> s \<notin> as_wire ` set members)"
  using of_wire_as_wire as_wire_of_wire wire_words_distinct of_wire_None_iff by simp

end

definition sum_to_option :: "'e + 'a \<Rightarrow> 'a option" where
  "sum_to_option r = (case r of Inl _ \<Rightarrow> None | Inr x \<Rightarrow> Some x)"

lemma sum_to_option_simps [simp]:
  "sum_to_option (Inl e) = None" "sum_to_option (Inr x) = Some x"
  by (simp_all add: sum_to_option_def)

subsection \<open>Interface: a machine whose legal moves only climb\<close>

fun legal_path :: "('s \<Rightarrow> 's \<Rightarrow> bool) \<Rightarrow> 's \<Rightarrow> 's list \<Rightarrow> bool" where
  "legal_path legal s [] = True"
| "legal_path legal s (t # ts) = (legal s t \<and> legal_path legal t ts)"

locale climbing_machine =
  fixes legal :: "'s \<Rightarrow> 's \<Rightarrow> bool"
    and rank :: "'s \<Rightarrow> nat"
    and top :: nat
  assumes legal_climbs: "legal s t \<Longrightarrow> rank s < rank t"
    and rank_bounded: "rank s \<le> top"
begin

lemma path_above: "legal_path legal s ts \<Longrightarrow> t \<in> set ts \<Longrightarrow> rank s < rank t"
  by (induction ts arbitrary: s) (auto dest: legal_climbs intro: less_trans)

lemma path_distinct: "legal_path legal s ts \<Longrightarrow> distinct (s # ts)"
proof (induction ts arbitrary: s)
  case Nil
  then show ?case by simp
next
  case (Cons t ts)
  from Cons.prems have "distinct (t # ts)" by (intro Cons.IH) simp
  moreover from Cons.prems have "s \<notin> set (t # ts)"
    using path_above by blast
  ultimately show ?case by simp
qed

lemma path_length: "legal_path legal s ts \<Longrightarrow> length ts + rank s \<le> top"
proof (induction ts arbitrary: s)
  case Nil
  then show ?case by (simp add: rank_bounded)
next
  case (Cons t ts)
  then show ?case using legal_climbs [of s t] by fastforce
qed

lemma never_returns: "legal_path legal s (ts @ [s]) \<Longrightarrow> False"
  using path_distinct [of s "ts @ [s]"] by simp

end

end
