(* ===== verification/Audit_Link.thy ===== *)
theory Audit_Link
  imports Prelude
begin

text \<open>
  The link layer of the audit chain (\<^verbatim>\<open>src/audit/mod.rs\<close>): the closed event and status
  vocabularies, the three link formats (the historical five-field SHA-256, the corrected
  seven-field SHA-256 and the keyed eight-field HMAC), the pins and their MACs.

  SHA-256 and HMAC-SHA-256 come from the crates \<^verbatim>\<open>sha2\<close> and \<^verbatim>\<open>hmac\<close>; they are the two
  fields of the parameter \<open>crypto\<close>.  Nothing is assumed of them in the definitions.
\<close>

record crypto =
  sha256 :: "str \<Rightarrow> str"
  hmac_sha256 :: "str \<Rightarrow> str \<Rightarrow> str"

datatype audit_kind =
    AK_Auth | AK_Ingest | AK_Webhook | AK_Reconcile | AK_Backup | AK_Connector | AK_Recall
  | AK_Search | AK_Get | AK_Breach | AK_Transfer | AK_Client | AK_GraphRead | AK_Retention
  | AK_Workflow | AK_Anchor | AK_Decision | AK_Forget | AK_Procedure | AK_Chat | AK_Rules
  | AK_Plugin

fun audit_kind_str :: "audit_kind \<Rightarrow> str" where
  "audit_kind_str AK_Auth = ''auth''"
| "audit_kind_str AK_Ingest = ''ingest''"
| "audit_kind_str AK_Webhook = ''webhook''"
| "audit_kind_str AK_Reconcile = ''reconcile''"
| "audit_kind_str AK_Backup = ''backup''"
| "audit_kind_str AK_Connector = ''connector''"
| "audit_kind_str AK_Recall = ''recall''"
| "audit_kind_str AK_Search = ''search''"
| "audit_kind_str AK_Get = ''get''"
| "audit_kind_str AK_Breach = ''breach''"
| "audit_kind_str AK_Transfer = ''transfer''"
| "audit_kind_str AK_Client = ''client''"
| "audit_kind_str AK_GraphRead = ''graphread''"
| "audit_kind_str AK_Retention = ''retention''"
| "audit_kind_str AK_Workflow = ''workflow''"
| "audit_kind_str AK_Anchor = ''anchor''"
| "audit_kind_str AK_Decision = ''decision''"
| "audit_kind_str AK_Forget = ''forget''"
| "audit_kind_str AK_Procedure = ''procedure''"
| "audit_kind_str AK_Chat = ''chat''"
| "audit_kind_str AK_Rules = ''rules''"
| "audit_kind_str AK_Plugin = ''plugin''"

datatype audit_status = AS_Ok | AS_Denied | AS_Error

fun audit_status_str :: "audit_status \<Rightarrow> str" where
  "audit_status_str AS_Ok = ''ok''"
| "audit_status_str AS_Denied = ''denied''"
| "audit_status_str AS_Error = ''error''"

subsection \<open>Digests of identifiers\<close>

definition audit_hash :: "crypto \<Rightarrow> str option \<Rightarrow> str \<Rightarrow> str" where
  "audit_hash cr chain_key s =
     (case chain_key of
        Some key \<Rightarrow> hex_encode (hmac_sha256 cr key (''brain-audit-hash|'' @ s))
      | None \<Rightarrow> hex_encode (sha256 cr s))"

subsection \<open>Rows and links\<close>

record chain_row =
  row_id :: i64
  row_ts :: str
  row_kind :: str
  row_actor :: str
  row_target_hash :: str
  row_status :: str
  row_detail_hash :: str
  row_prev_hash :: "str option"

definition unwrap_or_empty :: "str option \<Rightarrow> str" where
  "unwrap_or_empty p = (case p of None \<Rightarrow> [] | Some s \<Rightarrow> s)"

lemma unwrap_or_empty_simps [simp]:
  "unwrap_or_empty None = []" "unwrap_or_empty (Some s) = s"
  by (simp_all add: unwrap_or_empty_def)

definition chain_link :: "crypto \<Rightarrow> str \<Rightarrow> str \<Rightarrow> str \<Rightarrow> str \<Rightarrow> str \<Rightarrow> str" where
  "chain_link cr ts kind actor target_hash prev_hash =
     hex_encode (sha256 cr
       (ts @ ''|'' @ kind @ ''|'' @ actor @ ''|'' @ target_hash @ ''|'' @ prev_hash))"

definition link_fields :: "chain_row \<Rightarrow> str list" where
  "link_fields row =
     [row_ts row, row_kind row, row_actor row, row_target_hash row, row_status row,
      row_detail_hash row, unwrap_or_empty (row_prev_hash row)]"

definition chain_link_sha7 :: "crypto \<Rightarrow> chain_row \<Rightarrow> str" where
  "chain_link_sha7 cr row = hex_encode (sha256 cr (lp_concat (link_fields row)))"

definition chain_link_hmac :: "crypto \<Rightarrow> str \<Rightarrow> chain_row \<Rightarrow> str" where
  "chain_link_hmac cr key row =
     hex_encode (hmac_sha256 cr key (i64_le (row_id row) @ lp_concat (link_fields row)))"

datatype scheme = Scheme_Legacy | Scheme_Sha7 | Scheme_Hmac str

definition EPOCH_LEGACY :: str where "EPOCH_LEGACY = ''legacy''"
definition EPOCH_SHA7 :: str where "EPOCH_SHA7 = ''sha7''"
definition EPOCH_HMAC :: str where "EPOCH_HMAC = ''hmac256''"

fun scheme_epoch :: "scheme \<Rightarrow> str" where
  "scheme_epoch Scheme_Legacy = EPOCH_LEGACY"
| "scheme_epoch Scheme_Sha7 = EPOCH_SHA7"
| "scheme_epoch (Scheme_Hmac _) = EPOCH_HMAC"

fun row_link :: "crypto \<Rightarrow> scheme \<Rightarrow> chain_row \<Rightarrow> str" where
  "row_link cr Scheme_Legacy row =
     chain_link cr (row_ts row) (row_kind row) (row_actor row) (row_target_hash row)
       (unwrap_or_empty (row_prev_hash row))"
| "row_link cr Scheme_Sha7 row = chain_link_sha7 cr row"
| "row_link cr (Scheme_Hmac key) row = chain_link_hmac cr key row"

subsection \<open>Pins\<close>

record head_pin =
  pin_id :: i64
  pin_hash :: str
  pin_epoch :: str
  pin_mac_field :: "str option"

definition pin_mac :: "crypto \<Rightarrow> str \<Rightarrow> str \<Rightarrow> i64 \<Rightarrow> str \<Rightarrow> str" where
  "pin_mac cr key epoch rid hash =
     hex_encode (hmac_sha256 cr key
       (''brain-audit-pin|'' @ epoch @ ''|'' @ i64_le rid @ ''|'' @ hash))"

definition pin_for_row :: "crypto \<Rightarrow> scheme \<Rightarrow> chain_row \<Rightarrow> head_pin" where
  "pin_for_row cr s row =
     (let rid = row_id row; hash = row_link cr s row; epoch = scheme_epoch s;
          mac = (case s of Scheme_Legacy \<Rightarrow> None | Scheme_Sha7 \<Rightarrow> None
                 | Scheme_Hmac key \<Rightarrow> Some (pin_mac cr key epoch rid hash))
      in \<lparr>pin_id = rid, pin_hash = hash, pin_epoch = epoch, pin_mac_field = mac\<rparr>)"

unbundle bit_operations_syntax

definition constant_time_eq_hex :: "str \<Rightarrow> str \<Rightarrow> bool" where
  "constant_time_eq_hex a b =
     (if length a \<noteq> length b then False
      else fold (\<lambda>(x, y) diff. diff OR (of_char x XOR of_char y)) (zip a b) (0 :: u8) = 0)"

definition mac_is_valid :: "crypto \<Rightarrow> head_pin \<Rightarrow> str \<Rightarrow> bool" where
  "mac_is_valid cr pin key =
     (case pin_mac_field pin of
        None \<Rightarrow> False
      | Some got \<Rightarrow> constant_time_eq_hex got (pin_mac cr key (pin_epoch pin) (pin_id pin) (pin_hash pin)))"

subsection \<open>The constant-time comparison is equality\<close>

lemma word_or_zero_iff: "(a OR b :: 'a::len word) = 0 \<longleftrightarrow> a = 0 \<and> b = 0"
  by (metis or.right_neutral or_eq_0_iff)

lemma word_xor_zero_iff: "(a XOR b :: 'a::len word) = 0 \<longleftrightarrow> a = b"
  by (metis xor.assoc xor.right_neutral xor_self_eq xor.left_neutral)

lemma unat_of_char_u8: "unat (of_char c :: u8) = of_char c"
proof -
  have "(of_char c :: u8) = word_of_nat (of_char c)"
    by (simp add: of_nat_of_char)
  then show ?thesis
    by (simp add: unat_of_nat of_char_mod_256)
qed

lemma of_char_u8_inj: "(of_char c :: u8) = of_char d \<longleftrightarrow> c = d"
  by (metis char_of_char unat_of_char_u8)

lemma ct_fold_zero_iff:
  "length a = length b \<Longrightarrow>
   fold (\<lambda>(x, y) diff. diff OR (of_char x XOR of_char y)) (zip a b) (d :: u8) = 0 \<longleftrightarrow> d = 0 \<and> a = b"
  by (induction a b arbitrary: d rule: list_induct2)
     (auto simp: word_or_zero_iff word_xor_zero_iff of_char_u8_inj)

lemma constant_time_eq_hex_iff [simp]: "constant_time_eq_hex a b \<longleftrightarrow> a = b"
  by (auto simp: constant_time_eq_hex_def ct_fold_zero_iff)

lemma pin_for_row_simps [simp]:
  "pin_id (pin_for_row cr s row) = row_id row"
  "pin_hash (pin_for_row cr s row) = row_link cr s row"
  "pin_epoch (pin_for_row cr s row) = scheme_epoch s"
  by (simp_all add: pin_for_row_def Let_def)

lemma pin_for_row_mac_valid: "mac_is_valid cr (pin_for_row cr (Scheme_Hmac key) row) key"
  by (simp add: mac_is_valid_def pin_for_row_def Let_def)

subsection \<open>What a link commits to\<close>

text \<open>
  Each link is the hexadecimal digest of one message; the message of the two
  length-prefixed formats determines every field of the row.
\<close>

fun link_message :: "scheme \<Rightarrow> chain_row \<Rightarrow> str" where
  "link_message Scheme_Legacy row =
     row_ts row @ ''|'' @ row_kind row @ ''|'' @ row_actor row @ ''|'' @ row_target_hash row
       @ ''|'' @ unwrap_or_empty (row_prev_hash row)"
| "link_message Scheme_Sha7 row = lp_concat (link_fields row)"
| "link_message (Scheme_Hmac key) row = i64_le (row_id row) @ lp_concat (link_fields row)"

fun link_digest :: "crypto \<Rightarrow> scheme \<Rightarrow> str \<Rightarrow> str" where
  "link_digest cr Scheme_Legacy m = sha256 cr m"
| "link_digest cr Scheme_Sha7 m = sha256 cr m"
| "link_digest cr (Scheme_Hmac key) m = hmac_sha256 cr key m"

lemma row_link_eq: "row_link cr s row = hex_encode (link_digest cr s (link_message s row))"
  by (cases s) (simp_all add: chain_link_def chain_link_sha7_def chain_link_hmac_def)

definition row_ok :: "chain_row \<Rightarrow> bool" where
  "row_ok row \<longleftrightarrow> i64_ok (row_id row) \<and> list_all str_ok (link_fields row)"

definition same_evidence :: "scheme \<Rightarrow> chain_row \<Rightarrow> chain_row \<Rightarrow> bool" where
  "same_evidence s r r' \<longleftrightarrow>
     link_fields r = link_fields r' \<and>
     (case s of Scheme_Hmac _ \<Rightarrow> row_id r = row_id r' | _ \<Rightarrow> True)"

lemma link_message_inj:
  assumes "s \<noteq> Scheme_Legacy" and "row_ok r" and "row_ok r'"
    and "link_message s r = link_message s r'"
  shows "same_evidence s r r'"
proof -
  have len: "length (link_fields r) = length (link_fields r')"
    by (simp add: link_fields_def)
  have ok: "\<forall>f \<in> set (link_fields r). str_ok f" "\<forall>f \<in> set (link_fields r'). str_ok f"
    using assms(2,3) by (auto simp: row_ok_def list_all_iff)
  show ?thesis
  proof (cases s)
    case Scheme_Legacy
    with assms(1) show ?thesis by simp
  next
    case Scheme_Sha7
    with assms(4) lp_concat_inj [OF _ len ok] show ?thesis
      by (simp add: same_evidence_def)
  next
    case (Scheme_Hmac key)
    with assms(4) have "i64_le (row_id r) = i64_le (row_id r')"
      and "lp_concat (link_fields r) = lp_concat (link_fields r')"
      by simp_all
    then show ?thesis
      using Scheme_Hmac lp_concat_inj [OF _ len ok] i64_le_inj assms(2,3)
      by (simp add: same_evidence_def row_ok_def)
  qed
qed

subsection \<open>A concrete pair of hash functions\<close>

definition const_crypto :: crypto where
  "const_crypto = \<lparr>sha256 = (\<lambda>_. replicate 32 CHR ''a''), hmac_sha256 = (\<lambda>_ _. replicate 32 CHR ''b'')\<rparr>"

lemma const_crypto_simps [simp]:
  "sha256 const_crypto m = replicate 32 CHR ''a''" "hmac_sha256 const_crypto k m = replicate 32 CHR ''b''"
  by (simp_all add: const_crypto_def)


end
