(* ===== verification/Audit_Store.thy ===== *)
theory Audit_Store
  imports Audit_Link
begin

text \<open>
  The audit store (\<^verbatim>\<open>src/audit/mod.rs\<close>): the \<^verbatim>\<open>audit_events\<close> table, the three
  \<^verbatim>\<open>schema_meta\<close> cells that carry the epoch and the two pins, and the operations that
  touch them: the checked append, verification, retention pruning, the re-anchor to the
  keyed epoch, the boot-time bootstrap and the pin upgrade.

  The table is a list of rows in rowid order, which is the order the b-tree of an
  \<^verbatim>\<open>INTEGER PRIMARY KEY\<close> table has; an insert puts the new row where its id belongs.
  A pin cell holds the parsed pin; \<^term>\<open>None\<close> is a missing or unreadable cell, which the
  code reads alike.  SQLite itself is a parameter: for each statement an operation issues,
  the operation's environment says whether it succeeds, which row id and time stamp the
  engine assigns, and what a failed \<^verbatim>\<open>COMMIT\<close> or \<^verbatim>\<open>ROLLBACK\<close> leaves behind.  The process
  key is the argument \<open>key\<close>; \<^term>\<open>None\<close> is a process without one.  The counters behind
  \<^verbatim>\<open>/health\<close> and the log lines are left out.
\<close>

record db_row =
  d_id :: i64
  d_ts :: str
  d_kind :: str
  d_actor :: "str option"
  d_target_hash :: "str option"
  d_status :: "str option"
  d_detail_hash :: "str option"
  d_tenant :: str
  d_prev :: "str option"

record audit_db =
  events :: "db_row list"
  meta_epoch :: "str option"
  meta_head :: "head_pin option"
  meta_genesis :: "head_pin option"
  traces :: "(i64 \<times> str) list"

definition empty_db :: audit_db where
  "empty_db = \<lparr>events = [], meta_epoch = None, meta_head = None, meta_genesis = None, traces = []\<rparr>"

definition map_full_row :: "db_row \<Rightarrow> chain_row" where
  "map_full_row r =
     \<lparr>row_id = d_id r, row_ts = d_ts r, row_kind = d_kind r,
      row_actor = unwrap_or_empty (d_actor r),
      row_target_hash = unwrap_or_empty (d_target_hash r),
      row_status = unwrap_or_empty (d_status r),
      row_detail_hash = unwrap_or_empty (d_detail_hash r),
      row_prev_hash = d_prev r\<rparr>"

definition chain_rows :: "audit_db \<Rightarrow> chain_row list" where
  "chain_rows db = map map_full_row (events db)"

subsection \<open>Epochs\<close>

datatype chain_epoch = Epoch_Legacy | Epoch_Sha7 | Epoch_Hmac256

definition read_epoch :: "audit_db \<Rightarrow> chain_epoch" where
  "read_epoch db =
     (case meta_epoch db of
        None \<Rightarrow> Epoch_Legacy
      | Some v \<Rightarrow>
          if v = EPOCH_HMAC then Epoch_Hmac256
          else if v = EPOCH_SHA7 then Epoch_Sha7
          else Epoch_Legacy)"

definition current_scheme :: "str option \<Rightarrow> audit_db \<Rightarrow> scheme option" where
  "current_scheme key db =
     (case read_epoch db of
        Epoch_Legacy \<Rightarrow> Some Scheme_Legacy
      | Epoch_Sha7 \<Rightarrow> Some Scheme_Sha7
      | Epoch_Hmac256 \<Rightarrow> map_option Scheme_Hmac key)"

definition tip_row :: "audit_db \<Rightarrow> chain_row option" where
  "tip_row db = (if events db = [] then None else Some (map_full_row (last (events db))))"

definition first_row :: "audit_db \<Rightarrow> chain_row option" where
  "first_row db = (if events db = [] then None else Some (map_full_row (hd (events db))))"

text \<open>\<^verbatim>\<open>refresh_head_pin\<close> ignores the result of the two pin writes (and of the two
  deletes on an empty chain); \<open>head_ok\<close> and \<open>genesis_ok\<close> say whether they land.\<close>

definition refresh_head_pin :: "crypto \<Rightarrow> scheme \<Rightarrow> bool \<Rightarrow> bool \<Rightarrow> audit_db \<Rightarrow> audit_db" where
  "refresh_head_pin cr s head_ok genesis_ok db =
     (case tip_row db of
        Some tip \<Rightarrow>
          let db1 = (if head_ok then db\<lparr>meta_head := Some (pin_for_row cr s tip)\<rparr> else db)
          in (case first_row db of
                Some first \<Rightarrow>
                  if genesis_ok then db1\<lparr>meta_genesis := Some (pin_for_row cr s first)\<rparr> else db1
              | None \<Rightarrow> db1)
      | None \<Rightarrow>
          db\<lparr>meta_head := (if head_ok then None else meta_head db),
             meta_genesis := (if genesis_ok then None else meta_genesis db)\<rparr>)"

definition chain_head :: "crypto \<Rightarrow> str option \<Rightarrow> audit_db \<Rightarrow> str option" where
  "chain_head cr key db =
     (case current_scheme key db of
        None \<Rightarrow> None
      | Some s \<Rightarrow> map_option (row_link cr s) (tip_row db))"

datatype head_comparison =
    NoPrePin | NoPostPin | Match | RolledBack i64 i64 | Diverged i64 i64

fun classify_restored_head :: "head_pin option \<Rightarrow> head_pin option \<Rightarrow> head_comparison" where
  "classify_restored_head None post = NoPrePin"
| "classify_restored_head (Some pre) None = NoPostPin"
| "classify_restored_head (Some pre) (Some post) =
     (if pin_id pre = pin_id post \<and> pin_hash pre = pin_hash post then Match
      else if pin_id post < pin_id pre then RolledBack (pin_id pre) (pin_id post)
      else Diverged (pin_id pre) (pin_id post))"

subsection \<open>The checked append\<close>

datatype audit_write_error =
    AW_Begin | AW_Epoch | AW_Key | AW_Tip | AW_Insert | AW_Timestamp | AW_Pin | AW_Finalize
  | AW_Indeterminate

text \<open>
  What \<^verbatim>\<open>COMMIT\<close> (or \<^verbatim>\<open>RELEASE\<close>) does: it succeeds, it reports success with the
  transaction still open, it fails with the transaction still open, or it fails after the
  transaction has ended.
\<close>

datatype finalize_outcome = Fin_Ok | Fin_Ok_Open | Fin_Fail_Open | Fin_Fail_Ended

record sql_env =
  se_begin_ok :: bool
  se_epoch_ok :: bool
  se_tip_ok :: bool
  se_stamp_ok :: bool
  se_insert_ok :: bool
  se_ts_ok :: bool
  se_head_pin_ok :: bool
  se_genesis_pin_ok :: bool
  se_body_ended :: bool
  se_finalize :: finalize_outcome
  se_rollback_ok :: bool
  se_uncertain_applied :: bool
  se_new_id :: i64
  se_now_ts :: str

definition append_scheme ::
    "str option \<Rightarrow> sql_env \<Rightarrow> bool \<Rightarrow> audit_db \<Rightarrow> audit_write_error + (scheme \<times> audit_db)" where
  "append_scheme key env is_first db =
     (case meta_epoch db of
        None \<Rightarrow>
          if is_first
          then (if se_stamp_ok env then Inr (Scheme_Sha7, db\<lparr>meta_epoch := Some EPOCH_SHA7\<rparr>)
                else Inl AW_Epoch)
          else Inr (Scheme_Legacy, db)
      | Some v \<Rightarrow>
          if v = EPOCH_LEGACY then Inr (Scheme_Legacy, db)
          else if v = EPOCH_SHA7 then Inr (Scheme_Sha7, db)
          else if v = EPOCH_HMAC
          then (case key of None \<Rightarrow> Inl AW_Key | Some k \<Rightarrow> Inr (Scheme_Hmac k, db))
          else Inl AW_Epoch)"

definition audit_write_body ::
    "crypto \<Rightarrow> str option \<Rightarrow> sql_env \<Rightarrow> audit_kind \<Rightarrow> str \<Rightarrow> str \<Rightarrow> audit_status \<Rightarrow> str \<Rightarrow> str \<Rightarrow>
     audit_db \<Rightarrow> audit_write_error + (i64 \<times> audit_db)" where
  "audit_write_body cr key env kind actor target status detail tenant db =
     (if \<not> se_epoch_ok env then Inl AW_Epoch
      else if \<not> se_tip_ok env then Inl AW_Tip
      else
        let tip = tip_row db; is_first = (tip = None) in
        case append_scheme key env is_first db of
          Inl e \<Rightarrow> Inl e
        | Inr (s, db1) \<Rightarrow>
            let prev = map_option (row_link cr s) tip;
                th = audit_hash cr key target;
                dh = audit_hash cr key detail;
                new = \<lparr>d_id = se_new_id env, d_ts = se_now_ts env, d_kind = audit_kind_str kind,
                       d_actor = Some actor, d_target_hash = Some th,
                       d_status = Some (audit_status_str status), d_detail_hash = Some dh,
                       d_tenant = tenant, d_prev = prev\<rparr>
            in
            if \<not> se_insert_ok env then Inl AW_Insert
            else if \<not> se_ts_ok env then Inl AW_Timestamp
            else if \<not> se_head_pin_ok env then Inl AW_Pin
            else if is_first \<and> \<not> se_genesis_pin_ok env then Inl AW_Pin
            else
              let row = \<lparr>row_id = se_new_id env, row_ts = se_now_ts env,
                         row_kind = audit_kind_str kind, row_actor = actor,
                         row_target_hash = th, row_status = audit_status_str status,
                         row_detail_hash = dh, row_prev_hash = prev\<rparr>;
                  pin = pin_for_row cr s row;
                  db2 = db1\<lparr>events := insort_key d_id new (events db1), meta_head := Some pin\<rparr>;
                  db3 = (if is_first then db2\<lparr>meta_genesis := Some pin\<rparr> else db2)
              in Inr (se_new_id env, db3))"

definition record_tenant_checked ::
    "crypto \<Rightarrow> str option \<Rightarrow> sql_env \<Rightarrow> bool \<Rightarrow> audit_kind \<Rightarrow> str \<Rightarrow> str \<Rightarrow> audit_status \<Rightarrow> str \<Rightarrow>
     str \<Rightarrow> audit_db \<Rightarrow> (audit_write_error + i64) \<times> audit_db" where
  "record_tenant_checked cr key env is_top kind actor target status detail tenant db =
     (if \<not> se_begin_ok env then (Inl AW_Begin, db)
      else
        case audit_write_body cr key env kind actor target status detail tenant db of
          Inl stage \<Rightarrow>
            if se_body_ended env then (Inl AW_Indeterminate, db)
            else if se_rollback_ok env then (Inl stage, db)
            else (Inl AW_Indeterminate, db)
        | Inr (rid, db') \<Rightarrow>
            let uncertain = (if se_uncertain_applied env then db' else db);
                roll = (\<lambda>stage. if se_rollback_ok env then (Inl stage, db)
                               else (Inl AW_Indeterminate, uncertain))
            in case se_finalize env of
                 Fin_Ok \<Rightarrow> (Inr rid, db')
               | Fin_Ok_Open \<Rightarrow> if is_top then roll AW_Indeterminate else (Inr rid, db')
               | Fin_Fail_Open \<Rightarrow> roll AW_Finalize
               | Fin_Fail_Ended \<Rightarrow> (Inl AW_Indeterminate, uncertain))"

definition record_tenant ::
    "crypto \<Rightarrow> str option \<Rightarrow> sql_env \<Rightarrow> bool \<Rightarrow> audit_kind \<Rightarrow> str \<Rightarrow> str \<Rightarrow> audit_status \<Rightarrow> str \<Rightarrow>
     str \<Rightarrow> audit_db \<Rightarrow> i64 option \<times> audit_db" where
  "record_tenant cr key env is_top kind actor target status detail tenant db =
     (case record_tenant_checked cr key env is_top kind actor target status detail tenant db of
        (r, db') \<Rightarrow> (sum_to_option r, db'))"

definition DEFAULT_TENANT :: str where "DEFAULT_TENANT = ''global''"

definition record_event ::
    "crypto \<Rightarrow> str option \<Rightarrow> sql_env \<Rightarrow> bool \<Rightarrow> audit_kind \<Rightarrow> str \<Rightarrow> str \<Rightarrow> audit_status \<Rightarrow> str \<Rightarrow>
     audit_db \<Rightarrow> i64 option \<times> audit_db" where
  "record_event cr key env is_top kind actor target status detail db =
     record_tenant cr key env is_top kind actor target status detail DEFAULT_TENANT db"

text \<open>\<open>trace_ok\<close> says whether the insert into \<^verbatim>\<open>recall_traces\<close> lands; its failure is ignored.\<close>

definition record_read_event ::
    "crypto \<Rightarrow> str option \<Rightarrow> sql_env \<Rightarrow> bool \<Rightarrow> bool \<Rightarrow> audit_kind \<Rightarrow> str \<Rightarrow> str \<Rightarrow> str option \<Rightarrow> str \<Rightarrow>
     audit_db \<Rightarrow> i64 option \<times> audit_db" where
  "record_read_event cr key env is_top trace_ok kind actor target trace_detail tenant db =
     (let detail = (case trace_detail of None \<Rightarrow> target | Some t \<Rightarrow> t) in
      case record_tenant cr key env is_top kind actor target AS_Ok detail tenant db of
        (None, db') \<Rightarrow> (None, db')
      | (Some rid, db') \<Rightarrow>
          (case trace_detail of
             None \<Rightarrow> (Some rid, db')
           | Some t \<Rightarrow> (Some rid, if trace_ok then db'\<lparr>traces := traces db' @ [(rid, t)]\<rparr> else db')))"

definition read_trace :: "audit_db \<Rightarrow> i64 \<Rightarrow> str option" where
  "read_trace db rid = map_of (traces db) rid"

subsection \<open>Verification\<close>

text \<open>
  The walk of \<^verbatim>\<open>verify_chain_in_snapshot\<close>: \<^term>\<open>None\<close> is \<^verbatim>\<open>return false\<close>; otherwise the
  link of the last row and the link of the first.
\<close>

fun walk ::
    "(chain_row \<Rightarrow> str) \<Rightarrow> chain_row list \<Rightarrow> (i64 \<times> str) option \<Rightarrow> bool \<Rightarrow> (i64 \<times> str) option \<Rightarrow>
     ((i64 \<times> str) option \<times> (i64 \<times> str) option) option" where
  "walk L [] prev_link chain_started first = Some (prev_link, first)"
| "walk L (row # rows) prev_link chain_started first =
     (let here = (row_id row, L row);
          next = (\<lambda>started. walk L rows (Some here) started
                    (case first of None \<Rightarrow> Some here | Some f \<Rightarrow> Some f))
      in case row_prev_hash row of
           Some got \<Rightarrow>
             (case prev_link of
                Some (_, want) \<Rightarrow> if want = got then next True else None
              | None \<Rightarrow> next True)
         | None \<Rightarrow> if chain_started then None else next chain_started)"

definition pin_matches :: "head_pin option \<Rightarrow> (i64 \<times> str) option \<Rightarrow> bool" where
  "pin_matches pin at =
     (case pin of
        None \<Rightarrow> True
      | Some p \<Rightarrow> (case at of
                    Some (rid, link) \<Rightarrow> rid = pin_id p \<and> link = pin_hash p
                  | None \<Rightarrow> False))"

definition pin_macs_ok :: "crypto \<Rightarrow> str \<Rightarrow> bool \<Rightarrow> audit_db \<Rightarrow> bool" where
  "pin_macs_ok cr k nonempty db =
     (if nonempty \<and> (meta_head db = None \<or> meta_genesis db = None) then False
      else list_all (\<lambda>p. case p of None \<Rightarrow> True | Some pin \<Rightarrow> mac_is_valid cr pin k)
             [meta_head db, meta_genesis db])"

definition verify_chain_in_snapshot :: "crypto \<Rightarrow> str option \<Rightarrow> audit_db \<Rightarrow> bool \<Rightarrow> bool" where
  "verify_chain_in_snapshot cr key db require_pin_macs =
     (case current_scheme key db of
        None \<Rightarrow> False
      | Some s \<Rightarrow>
          (case walk (row_link cr s) (chain_rows db) None False None of
             None \<Rightarrow> False
           | Some (prev_link, first) \<Rightarrow>
               (case s of
                  Scheme_Hmac k \<Rightarrow> require_pin_macs \<longrightarrow> pin_macs_ok cr k (first \<noteq> None) db
                | _ \<Rightarrow> True) \<and>
               pin_matches (meta_genesis db) first \<and>
               pin_matches (meta_head db) prev_link))"

text \<open>\<open>snap_ok\<close>: whether \<^verbatim>\<open>BEGIN DEFERRED\<close> establishes the read snapshot.\<close>

definition verify_chain_inner :: "crypto \<Rightarrow> str option \<Rightarrow> bool \<Rightarrow> bool \<Rightarrow> audit_db \<Rightarrow> bool \<Rightarrow> bool" where
  "verify_chain_inner cr key autocommit snap_ok db require_pin_macs =
     (if \<not> autocommit then verify_chain_in_snapshot cr key db require_pin_macs
      else if \<not> snap_ok then False
      else verify_chain_in_snapshot cr key db require_pin_macs)"

definition verify_chain :: "crypto \<Rightarrow> str option \<Rightarrow> bool \<Rightarrow> bool \<Rightarrow> audit_db \<Rightarrow> bool" where
  "verify_chain cr key autocommit snap_ok db = verify_chain_inner cr key autocommit snap_ok db True"

subsection \<open>Retention pruning\<close>

record prune_env =
  pe_cutoff :: "str option"
  pe_count_ok :: bool
  pe_snap_ok :: bool
  pe_begin_ok :: bool
  pe_delete_ok :: bool
  pe_select_ok :: bool
  pe_row_ok :: "i64 \<Rightarrow> bool"
  pe_head_pin_ok :: bool
  pe_genesis_pin_ok :: bool
  pe_traces_ok :: bool
  pe_commit_ok :: bool
  pe_record :: sql_env

fun reanchor_rows ::
    "(chain_row \<Rightarrow> str) \<Rightarrow> (i64 \<Rightarrow> bool) \<Rightarrow> bool \<Rightarrow> str option \<Rightarrow> db_row list \<Rightarrow> db_row list option" where
  "reanchor_rows L ok is_first prev [] = Some []"
| "reanchor_rows L ok is_first prev (r # rs) =
     (if \<not> ok (d_id r) then None
      else
        let new_prev = (if is_first \<or> d_prev r = None then None else Some (unwrap_or_empty prev));
            linked = r\<lparr>d_prev := new_prev\<rparr>
        in map_option ((#) linked) (reanchor_rows L ok False (Some (L (map_full_row linked))) rs))"

definition prune_audit_retention ::
    "crypto \<Rightarrow> str option \<Rightarrow> prune_env \<Rightarrow> audit_db \<Rightarrow> nat option \<times> audit_db" where
  "prune_audit_retention cr key env db =
     (case pe_cutoff env of
        None \<Rightarrow> (None, db)
      | Some cutoff \<Rightarrow>
          if \<not> pe_count_ok env then (None, db)
          else
            let expired = length (filter (\<lambda>r. d_ts r < cutoff) (events db)) in
            if expired = 0 then (Some 0, db)
            else
              case current_scheme key db of
                None \<Rightarrow> (None, db)
              | Some s \<Rightarrow>
                  if \<not> verify_chain cr key True (pe_snap_ok env) db then (None, db)
                  else if \<not> pe_begin_ok env then (None, db)
                  else if \<not> pe_delete_ok env then (None, db)
                  else if \<not> pe_select_ok env then (None, db)
                  else
                    let survivors = filter (\<lambda>r. \<not> d_ts r < cutoff) (events db) in
                    case reanchor_rows (row_link cr s) (pe_row_ok env) True None survivors of
                      None \<Rightarrow> (None, db)
                    | Some rows \<Rightarrow>
                        let db1 = refresh_head_pin cr s (pe_head_pin_ok env) (pe_genesis_pin_ok env)
                                    (db\<lparr>events := rows\<rparr>) in
                        if \<not> pe_traces_ok env then (None, db)
                        else if \<not> pe_commit_ok env then (None, db)
                        else
                          let db2 = db1\<lparr>traces := filter (\<lambda>t. fst t \<in> d_id ` set rows) (traces db1)\<rparr>;
                              db3 = snd (record_event cr key (pe_record env) True AK_Retention ''system''
                                           cutoff AS_Ok (''pruned:'' @ show_nat expired) db2)
                          in (Some expired, db3))"

subsection \<open>Re-anchoring to the keyed epoch\<close>

datatype reanchor_error =
    RA_KeyUnavailable | RA_HmacUnverified | RA_LegacyUnverified | RA_Select | RA_Begin | RA_Update i64
  | RA_EpochStamp | RA_Commit | RA_PostCondition

record reanchor_env =
  re_snap_ok :: bool
  re_select_ok :: bool
  re_begin_ok :: bool
  re_row_ok :: "i64 \<Rightarrow> bool"
  re_stamp_ok :: bool
  re_head_pin_ok :: bool
  re_genesis_pin_ok :: bool
  re_commit_ok :: bool
  re_post_snap_ok :: bool

fun replay_rows ::
    "(chain_row \<Rightarrow> str) \<Rightarrow> (i64 \<Rightarrow> bool) \<Rightarrow> str option \<Rightarrow> nat \<Rightarrow> db_row list \<Rightarrow>
     reanchor_error + (nat \<times> db_row list)" where
  "replay_rows L ok prev_link rewritten [] = Inr (rewritten, [])"
| "replay_rows L ok prev_link rewritten (r # rs) =
     (let new_prev = (if d_prev r = None then None else prev_link);
          linked = r\<lparr>d_prev := new_prev\<rparr>;
          changed = (new_prev \<noteq> d_prev r)
      in if changed \<and> \<not> ok (d_id r) then Inl (RA_Update (d_id r))
         else
           (case replay_rows L ok (Some (L (map_full_row linked)))
                   (if changed then rewritten + 1 else rewritten) rs of
              Inl e \<Rightarrow> Inl e
            | Inr (n, rows) \<Rightarrow> Inr (n, linked # rows)))"

definition reanchor_to_hmac ::
    "crypto \<Rightarrow> str option \<Rightarrow> reanchor_env \<Rightarrow> audit_db \<Rightarrow> (reanchor_error + nat) \<times> audit_db" where
  "reanchor_to_hmac cr key env db =
     (case key of
        None \<Rightarrow> (Inl RA_KeyUnavailable, db)
      | Some k \<Rightarrow>
          if read_epoch db = Epoch_Hmac256
          then
            (if \<not> verify_chain cr key True (re_snap_ok env) db then (Inl RA_HmacUnverified, db)
             else (Inr 0, refresh_head_pin cr (Scheme_Hmac k) (re_head_pin_ok env)
                            (re_genesis_pin_ok env) db))
          else if \<not> verify_chain cr key True (re_snap_ok env) db then (Inl RA_LegacyUnverified, db)
          else if \<not> re_select_ok env then (Inl RA_Select, db)
          else if \<not> re_begin_ok env then (Inl RA_Begin, db)
          else
            (case replay_rows (row_link cr (Scheme_Hmac k)) (re_row_ok env) None 0 (events db) of
               Inl e \<Rightarrow> (Inl e, db)
             | Inr (n, rows) \<Rightarrow>
                 if \<not> re_stamp_ok env then (Inl RA_EpochStamp, db)
                 else
                   let db1 = refresh_head_pin cr (Scheme_Hmac k) (re_head_pin_ok env)
                               (re_genesis_pin_ok env)
                               (db\<lparr>events := rows, meta_epoch := Some EPOCH_HMAC\<rparr>)
                   in if \<not> re_commit_ok env then (Inl RA_Commit, db)
                      else if \<not> verify_chain cr key True (re_post_snap_ok env) db1
                      then (Inl RA_PostCondition, db1)
                      else (Inr n, db1)))"

subsection \<open>Boot: epoch bootstrap and pin upgrade\<close>

definition bootstrap_epoch :: "str option \<Rightarrow> bool \<Rightarrow> bool \<Rightarrow> audit_db \<Rightarrow> bool \<times> audit_db" where
  "bootstrap_epoch key count_ok stamp_ok db =
     (if key = None then (False, db)
      else if read_epoch db \<noteq> Epoch_Legacy then (False, db)
      else if \<not> count_ok then (False, db)
      else if events db \<noteq> [] then (False, db)
      else if stamp_ok then (True, db\<lparr>meta_epoch := Some EPOCH_HMAC\<rparr>)
      else (False, db))"

definition upgrade_mac :: "crypto \<Rightarrow> scheme \<Rightarrow> head_pin \<Rightarrow> head_pin option" where
  "upgrade_mac cr s pin =
     (if pin_mac_field pin \<noteq> None then None
      else case s of
             Scheme_Hmac k \<Rightarrow>
               Some (pin\<lparr>pin_mac_field := Some (pin_mac cr k (pin_epoch pin) (pin_id pin) (pin_hash pin))\<rparr>)
           | _ \<Rightarrow> None)"

definition upgrade_pins ::
    "crypto \<Rightarrow> str option \<Rightarrow> bool \<Rightarrow> bool \<Rightarrow> bool \<Rightarrow> bool \<Rightarrow> bool \<Rightarrow> audit_db \<Rightarrow> bool \<times> audit_db" where
  "upgrade_pins cr key autocommit snap_ok stamp_ok head_ok genesis_ok db =
     (case current_scheme key db of
        None \<Rightarrow> (False, db)
      | Some s \<Rightarrow>
          (case (first_row db, tip_row db) of
             (Some first, Some tip) \<Rightarrow>
               let macs_done = (case s of
                     Scheme_Hmac k \<Rightarrow>
                       (\<exists>p \<in> set_option (meta_head db). pin_mac_field p \<noteq> None) \<and>
                       (\<exists>p \<in> set_option (meta_genesis db). pin_mac_field p \<noteq> None)
                   | _ \<Rightarrow> True)
               in if meta_genesis db \<noteq> None \<and> macs_done then (False, db)
                  else if \<not> verify_chain_inner cr key autocommit snap_ok db False then (False, db)
                  else
                    let (c1, db1) = (if meta_genesis db = None \<and> stamp_ok
                                     then (True, db\<lparr>meta_genesis := Some (pin_for_row cr s first)\<rparr>)
                                     else (False, db));
                        \<comment> \<open>both pins are read into the loop's array before either is rewritten\<close>
                        head1 = meta_head db1; genesis1 = meta_genesis db1;
                        (c2, db2) = (case Option.bind head1 (upgrade_mac cr s) of
                                       Some p \<Rightarrow> if head_ok then (True, db1\<lparr>meta_head := Some p\<rparr>) else (False, db1)
                                     | None \<Rightarrow> (False, db1));
                        (c3, db3) = (case Option.bind genesis1 (upgrade_mac cr s) of
                                       Some p \<Rightarrow> if genesis_ok then (True, db2\<lparr>meta_genesis := Some p\<rparr>) else (False, db2)
                                     | None \<Rightarrow> (False, db2))
                    in (c1 \<or> c2 \<or> c3, db3)
           | _ \<Rightarrow> (False, db)))"

end
