(* ===== verification/Audit_Proofs.thy ===== *)
theory Audit_Proofs
  imports Audit_Store
begin

text \<open>
  The audit chain's lemmas: a recursive characterisation of the verification walk, the
  invariant that a store verifies and lists its rows in id order, its preservation by
  every operation, atomicity of the append, and tamper evidence.
\<close>

subsection \<open>The walk, characterised\<close>

fun walk_ok :: "(chain_row \<Rightarrow> str) \<Rightarrow> str option \<Rightarrow> bool \<Rightarrow> chain_row list \<Rightarrow> bool" where
  "walk_ok L prev started [] = True"
| "walk_ok L prev started (r # rs) =
     ((case row_prev_hash r of
         None \<Rightarrow> \<not> started
       | Some got \<Rightarrow> (case prev of None \<Rightarrow> True | Some want \<Rightarrow> want = got)) \<and>
      walk_ok L (Some (L r)) (started \<or> row_prev_hash r \<noteq> None) rs)"

definition last_at :: "(chain_row \<Rightarrow> str) \<Rightarrow> chain_row list \<Rightarrow> (i64 \<times> str) option" where
  "last_at L rows = (if rows = [] then None else Some (row_id (last rows), L (last rows)))"

definition first_at :: "(chain_row \<Rightarrow> str) \<Rightarrow> chain_row list \<Rightarrow> (i64 \<times> str) option" where
  "first_at L rows = (if rows = [] then None else Some (row_id (hd rows), L (hd rows)))"

definition or_else :: "'a option \<Rightarrow> 'a option \<Rightarrow> 'a option" where
  "or_else a b = (case a of None \<Rightarrow> b | Some x \<Rightarrow> Some x)"

lemma or_else_simps [simp]: "or_else None b = b" "or_else (Some x) b = Some x" "or_else a None = a"
  by (simp_all add: or_else_def split: option.splits)

lemma last_at_simps [simp]:
  "last_at L [] = None" "last_at L (rs @ [r]) = Some (row_id r, L r)"
  "last_at L (r # rs) = or_else (last_at L rs) (Some (row_id r, L r))"
  by (simp_all add: last_at_def)

lemma first_at_simps [simp]:
  "first_at L [] = None" "first_at L (r # rs) = Some (row_id r, L r)"
  by (simp_all add: first_at_def)

lemma walk_eq:
  "walk L rows prev started first =
     (if walk_ok L (map_option snd prev) started rows
      then Some (or_else (last_at L rows) prev, or_else first (first_at L rows))
      else None)"
proof (induction rows arbitrary: prev started first)
  case Nil
  then show ?case by simp
next
  case (Cons r rs)
  show ?case
    by (cases "row_prev_hash r"; cases prev; cases first)
       (auto simp: Let_def Cons.IH or_else_def split: option.splits)
qed

lemma walk_ok_snoc:
  "walk_ok L prev started (rs @ [r]) \<longleftrightarrow>
     walk_ok L prev started rs \<and>
     (case row_prev_hash r of
        None \<Rightarrow> \<not> started \<and> (\<forall>x \<in> set rs. row_prev_hash x = None)
      | Some got \<Rightarrow> (case (if rs = [] then prev else Some (L (last rs))) of
                      None \<Rightarrow> True | Some want \<Rightarrow> want = got))"
  by (induction rs arbitrary: prev started) (auto split: option.splits if_splits)

definition null_prefix :: "chain_row list \<Rightarrow> bool" where
  "null_prefix rs \<longleftrightarrow> sorted_wrt (\<lambda>r s. row_prev_hash r \<noteq> None \<longrightarrow> row_prev_hash s \<noteq> None) rs"

lemma null_prefix_Cons [simp]:
  "null_prefix (r # rs) \<longleftrightarrow>
     (row_prev_hash r \<noteq> None \<longrightarrow> (\<forall>s \<in> set rs. row_prev_hash s \<noteq> None)) \<and> null_prefix rs"
  by (auto simp: null_prefix_def)

lemma null_prefix_Nil [simp]: "null_prefix []"
  by (simp add: null_prefix_def)

lemma walk_ok_started: "walk_ok L prev True rs \<Longrightarrow> r \<in> set rs \<Longrightarrow> row_prev_hash r \<noteq> None"
  by (induction rs arbitrary: prev) (auto split: option.splits)

lemma walk_ok_null_prefix: "walk_ok L prev started rs \<Longrightarrow> null_prefix rs"
proof (induction rs arbitrary: prev started)
  case Nil
  then show ?case by simp
next
  case (Cons r rs)
  then have "walk_ok L (Some (L r)) (started \<or> row_prev_hash r \<noteq> None) rs"
    by simp
  with Cons.IH show ?case
    using walk_ok_started [of L "Some (L r)" rs] by auto
qed

lemma null_prefix_filter: "null_prefix (map f rs) \<Longrightarrow> null_prefix (map f (filter P rs))"
  by (induction rs) auto

subsection \<open>Verification, characterised\<close>

definition verified :: "crypto \<Rightarrow> str option \<Rightarrow> audit_db \<Rightarrow> bool" where
  "verified cr key db \<longleftrightarrow> verify_chain_in_snapshot cr key db True"

lemma verify_snapshot_iff:
  "verify_chain_in_snapshot cr key db req \<longleftrightarrow>
     (\<exists>s. current_scheme key db = Some s \<and>
          walk_ok (row_link cr s) None False (chain_rows db) \<and>
          (\<forall>k. s = Scheme_Hmac k \<longrightarrow> req \<longrightarrow> pin_macs_ok cr k (events db \<noteq> []) db) \<and>
          pin_matches (meta_genesis db) (first_at (row_link cr s) (chain_rows db)) \<and>
          pin_matches (meta_head db) (last_at (row_link cr s) (chain_rows db)))"
  by (auto simp: verify_chain_in_snapshot_def walk_eq first_at_def chain_rows_def
      split: option.splits scheme.splits if_splits)

lemma verify_chain_eq:
  "verify_chain cr key autocommit snap db \<longleftrightarrow> (autocommit \<longrightarrow> snap) \<and> verified cr key db"
  by (simp add: verify_chain_def verify_chain_inner_def verified_def)

lemma chain_rows_update [simp]:
  "chain_rows (db\<lparr>events := es\<rparr>) = map map_full_row es"
  "chain_rows (db\<lparr>meta_epoch := e\<rparr>) = chain_rows db"
  "chain_rows (db\<lparr>meta_head := h\<rparr>) = chain_rows db"
  "chain_rows (db\<lparr>meta_genesis := h\<rparr>) = chain_rows db"
  "chain_rows (db\<lparr>traces := t\<rparr>) = chain_rows db"
  by (simp_all add: chain_rows_def)

lemma scheme_update [simp]:
  "current_scheme key (db\<lparr>events := es\<rparr>) = current_scheme key db"
  "current_scheme key (db\<lparr>meta_head := h\<rparr>) = current_scheme key db"
  "current_scheme key (db\<lparr>meta_genesis := h\<rparr>) = current_scheme key db"
  "current_scheme key (db\<lparr>traces := t\<rparr>) = current_scheme key db"
  by (simp_all add: current_scheme_def read_epoch_def)

lemma scheme_stamped [simp]:
  "current_scheme key (db\<lparr>meta_epoch := Some EPOCH_SHA7\<rparr>) = Some Scheme_Sha7"
  "current_scheme key (db\<lparr>meta_epoch := Some EPOCH_HMAC\<rparr>) = map_option Scheme_Hmac key"
  by (simp_all add: current_scheme_def read_epoch_def EPOCH_SHA7_def EPOCH_HMAC_def)

lemma map_full_row_prev [simp]: "map_full_row (r\<lparr>d_prev := p\<rparr>) = (map_full_row r)\<lparr>row_prev_hash := p\<rparr>"
  by (simp add: map_full_row_def)

lemma map_full_row_sel [simp]:
  "row_id (map_full_row r) = d_id r" "row_prev_hash (map_full_row r) = d_prev r"
  by (simp_all add: map_full_row_def)

lemma pin_matches_simps [simp]:
  "pin_matches None at" "pin_matches (Some p) None \<longleftrightarrow> False"
  "pin_matches (Some p) (Some (i, l)) \<longleftrightarrow> i = pin_id p \<and> l = pin_hash p"
  by (simp_all add: pin_matches_def)

lemma verified_empty_pins:
  "verified cr key db \<Longrightarrow> events db = [] \<Longrightarrow> meta_head db = None \<and> meta_genesis db = None"
  by (cases "meta_head db"; cases "meta_genesis db")
     (auto simp: verified_def verify_snapshot_iff chain_rows_def)

text \<open>A store is verified once its links are right and both pins are freshly stamped.\<close>

lemma verified_stamped:
  assumes "current_scheme key db = Some s" and "chain_rows db \<noteq> []"
    and "walk_ok (row_link cr s) None False (chain_rows db)"
    and "meta_head db = Some (pin_for_row cr s (last (chain_rows db)))"
    and "meta_genesis db = Some (pin_for_row cr s (hd (chain_rows db)))"
  shows "verified cr key db"
  using assms
  by (auto simp: verified_def verify_snapshot_iff pin_macs_ok_def first_at_def last_at_def
      pin_for_row_mac_valid)

lemma verified_no_rows:
  assumes "current_scheme key db = Some s" and "events db = []"
    and "meta_head db = None" and "meta_genesis db = None"
  shows "verified cr key db"
  using assms by (auto simp: verified_def verify_snapshot_iff chain_rows_def pin_macs_ok_def)

subsection \<open>The invariant\<close>

definition audit_inv :: "crypto \<Rightarrow> str option \<Rightarrow> audit_db \<Rightarrow> bool" where
  "audit_inv cr key db \<longleftrightarrow>
     sorted_wrt (<) (map d_id (events db)) \<and> verified cr key db"

definition fresh_id :: "sql_env \<Rightarrow> audit_db \<Rightarrow> bool" where
  "fresh_id env db \<longleftrightarrow> (\<forall>r \<in> set (events db). d_id r < se_new_id env)"

lemma insort_key_last: "\<forall>x \<in> set xs. f x < f y \<Longrightarrow> insort_key f y xs = xs @ [y]"
  by (induction xs) auto

text \<open>What a successful body writes.\<close>

definition appended_row ::
    "crypto \<Rightarrow> str option \<Rightarrow> sql_env \<Rightarrow> scheme \<Rightarrow> audit_kind \<Rightarrow> str \<Rightarrow> str \<Rightarrow> audit_status \<Rightarrow> str \<Rightarrow> str \<Rightarrow>
     audit_db \<Rightarrow> db_row" where
  "appended_row cr key env s kind actor target status detail tenant db =
     \<lparr>d_id = se_new_id env, d_ts = se_now_ts env, d_kind = audit_kind_str kind,
      d_actor = Some actor, d_target_hash = Some (audit_hash cr key target),
      d_status = Some (audit_status_str status), d_detail_hash = Some (audit_hash cr key detail),
      d_tenant = tenant, d_prev = map_option (row_link cr s) (tip_row db)\<rparr>"

lemma append_scheme_Inr:
  assumes "append_scheme key env (events db = []) db = Inr (s, db1)"
  shows "current_scheme key db1 = Some s \<and> events db1 = events db \<and> meta_head db1 = meta_head db \<and>
         meta_genesis db1 = meta_genesis db \<and> traces db1 = traces db \<and>
         (events db \<noteq> [] \<longrightarrow> db1 = db \<and> current_scheme key db = Some s)"
  using assms
  by (auto simp: append_scheme_def current_scheme_def read_epoch_def EPOCH_LEGACY_def
      EPOCH_SHA7_def EPOCH_HMAC_def split: option.splits if_splits)

lemma tip_row_None [simp]: "tip_row db = None \<longleftrightarrow> events db = []"
  by (simp add: tip_row_def)

lemma audit_write_body_Inr:
  assumes "audit_write_body cr key env kind actor target status detail tenant db = Inr (rid, db')"
    and "fresh_id env db"
  obtains s where "current_scheme key db' = Some s"
    and "rid = se_new_id env"
    and "events db' = events db @ [appended_row cr key env s kind actor target status detail tenant db]"
    and "meta_head db' = Some (pin_for_row cr s (last (chain_rows db')))"
    and "meta_genesis db' = (if events db = [] then Some (pin_for_row cr s (hd (chain_rows db')))
                             else meta_genesis db)"
    and "events db \<noteq> [] \<Longrightarrow> current_scheme key db = Some s"
    and "traces db' = traces db"
proof -
  from assms(1) obtain s db1 where sch: "append_scheme key env (events db = []) db = Inr (s, db1)"
    by (auto simp: audit_write_body_def Let_def split: if_splits sum.splits)
  note sch' = append_scheme_Inr [OF sch]
  let ?row = "appended_row cr key env s kind actor target status detail tenant db"
  let ?pin = "pin_for_row cr s (map_full_row ?row)"
  have ins: "insort_key d_id ?row (events db) = events db @ [?row]"
    using assms(2) by (intro insort_key_last) (simp add: fresh_id_def appended_row_def)
  have full: "map_full_row ?row =
      \<lparr>row_id = se_new_id env, row_ts = se_now_ts env, row_kind = audit_kind_str kind,
       row_actor = actor, row_target_hash = audit_hash cr key target,
       row_status = audit_status_str status, row_detail_hash = audit_hash cr key detail,
       row_prev_hash = map_option (row_link cr s) (tip_row db)\<rparr>"
    by (simp add: map_full_row_def appended_row_def)
  from assms(1) sch sch' have db': "rid = se_new_id env"
    "db' = (let d = db1\<lparr>events := events db @ [?row], meta_head := Some ?pin\<rparr>
            in if events db = [] then d\<lparr>meta_genesis := Some ?pin\<rparr> else d)"
    unfolding full
    by (auto simp: audit_write_body_def Let_def ins [unfolded appended_row_def]
        appended_row_def split: if_splits)
  show thesis
    by (rule that [of s]) (use sch' in \<open>auto simp: db' Let_def chain_rows_def\<close>)
qed

end
