(* ===== verification/Audit_Safety.thy ===== *)
theory Audit_Safety
  imports Audit_Proofs
begin

text \<open>
  What the operations of the audit store keep: every append, prune, re-anchor, bootstrap
  and pin upgrade takes a verifying store to a verifying store, an append that reports a
  definite error has changed nothing, and the rewriting operations touch only the
  back-references.
\<close>

subsection \<open>The append\<close>

lemma tip_row_chain: "events db \<noteq> [] \<Longrightarrow> tip_row db = Some (last (chain_rows db))"
  by (simp add: tip_row_def chain_rows_def last_map)

lemma chain_rows_Nil [simp]: "chain_rows db = [] \<longleftrightarrow> events db = []"
  by (simp add: chain_rows_def)

lemma appended_row_sel [simp]:
  "d_id (appended_row cr key env s kind actor target status detail tenant db) = se_new_id env"
  "d_prev (appended_row cr key env s kind actor target status detail tenant db) =
     map_option (row_link cr s) (tip_row db)"
  by (simp_all add: appended_row_def)

lemma audit_write_body_inv:
  assumes inv: "audit_inv cr key db" and fresh: "fresh_id env db"
    and body: "audit_write_body cr key env kind actor target status detail tenant db = Inr (rid, db')"
  shows "audit_inv cr key db'"
proof -
  from body fresh obtain s where s: "current_scheme key db' = Some s"
    and ev: "events db' = events db @ [appended_row cr key env s kind actor target status detail tenant db]"
    and head: "meta_head db' = Some (pin_for_row cr s (last (chain_rows db')))"
    and gen: "meta_genesis db' = (if events db = [] then Some (pin_for_row cr s (hd (chain_rows db')))
                                  else meta_genesis db)"
    and old: "events db \<noteq> [] \<Longrightarrow> current_scheme key db = Some s"
    by (rule audit_write_body_Inr) blast
  have sorted: "sorted_wrt (<) (map d_id (events db'))"
    using inv fresh by (auto simp: ev audit_inv_def fresh_id_def sorted_wrt_append)
  have "verified cr key db'"
  proof (cases "events db = []")
    case True
    then show ?thesis
      using s head gen by (intro verified_stamped) (auto simp: chain_rows_def ev tip_row_def)
  next
    case False
    have ver: "verified cr key db" using inv by (simp add: audit_inv_def)
    have rows: "chain_rows db' = chain_rows db @ [map_full_row
        (appended_row cr key env s kind actor target status detail tenant db)]"
      by (simp add: chain_rows_def ev)
    from ver old [OF False] have w: "walk_ok (row_link cr s) None False (chain_rows db)"
      and g: "pin_matches (meta_genesis db) (first_at (row_link cr s) (chain_rows db))"
      and m: "\<And>k. s = Scheme_Hmac k \<Longrightarrow> pin_macs_ok cr k True db"
      using False by (auto simp: verified_def verify_snapshot_iff)
    have "first_at (row_link cr s) (chain_rows db') = first_at (row_link cr s) (chain_rows db)"
      using False by (simp add: rows first_at_def)
    moreover have "walk_ok (row_link cr s) None False (chain_rows db')"
      using w False by (simp add: rows walk_ok_snoc tip_row_chain)
    moreover have "pin_macs_ok cr k True db'" if "s = Scheme_Hmac k" for k
      using m [OF that] False head gen that
      by (auto simp: pin_macs_ok_def pin_for_row_mac_valid split: if_splits)
    moreover have "pin_matches (meta_head db') (last_at (row_link cr s) (chain_rows db'))"
      by (simp add: head rows)
    ultimately show ?thesis
      using s g gen False ev by (auto simp: verified_def verify_snapshot_iff)
  qed
  with sorted show ?thesis by (simp add: audit_inv_def)
qed

lemma record_tenant_checked_cases:
  assumes "record_tenant_checked cr key env is_top kind actor target status detail tenant db = (r, db')"
  obtains (kept) e where "r = Inl e" and "db' = db"
  | (unknown) rid where "r = Inl AW_Indeterminate"
      and "audit_write_body cr key env kind actor target status detail tenant db = Inr (rid, db')"
  | (written) rid where "r = Inr rid"
      and "audit_write_body cr key env kind actor target status detail tenant db = Inr (rid, db')"
  using assms
  by (auto simp: record_tenant_checked_def Let_def split: if_splits sum.splits finalize_outcome.splits)

lemma record_tenant_checked_inv:
  assumes "audit_inv cr key db" and "fresh_id env db"
  shows "audit_inv cr key
           (snd (record_tenant_checked cr key env is_top kind actor target status detail tenant db))"
proof -
  obtain r db' where eq:
    "record_tenant_checked cr key env is_top kind actor target status detail tenant db = (r, db')"
    by (meson surj_pair)
  show ?thesis
    unfolding eq snd_conv using eq
    by (cases rule: record_tenant_checked_cases) (use assms audit_write_body_inv in auto)
qed

lemma record_event_inv:
  "audit_inv cr key db \<Longrightarrow> fresh_id env db \<Longrightarrow>
   audit_inv cr key (snd (record_event cr key env is_top kind actor target status detail db))"
  using record_tenant_checked_inv [of cr key db env is_top kind actor target status detail DEFAULT_TENANT]
  by (auto simp: record_event_def record_tenant_def split: prod.splits)

lemma audit_inv_traces [simp]: "audit_inv cr key (db\<lparr>traces := t\<rparr>) \<longleftrightarrow> audit_inv cr key db"
  by (simp add: audit_inv_def verified_def verify_snapshot_iff pin_macs_ok_def)

lemma record_read_event_inv:
  "audit_inv cr key db \<Longrightarrow> fresh_id env db \<Longrightarrow>
   audit_inv cr key (snd (record_read_event cr key env is_top trace_ok kind actor target td tenant db))"
  using record_tenant_checked_inv [of cr key db env is_top kind actor target AS_Ok
      "case td of None \<Rightarrow> target | Some t \<Rightarrow> t" tenant]
  by (auto simp: record_read_event_def record_tenant_def sum_to_option_def split: prod.splits option.splits sum.splits)


subsection \<open>Rewriting the back-references\<close>

abbreviation unlinked :: "db_row list \<Rightarrow> db_row list" where
  "unlinked \<equiv> map (d_prev_update (\<lambda>_. None))"

lemma d_prev_update_eq: "r\<lparr>d_prev := a\<rparr> = r'\<lparr>d_prev := b\<rparr> \<Longrightarrow> d_id r = d_id r'"
  by (metis (no_types, lifting) db_row.select_convs(1) db_row.surjective db_row.update_convs(9))

lemma unlinked_ids: "unlinked rs = unlinked rs' \<Longrightarrow> map d_id rs = map d_id rs'"
  by (induction rs rs' rule: list_induct2') (auto dest: d_prev_update_eq)

lemma reanchor_rows_unlinked: "reanchor_rows L ok is_first prev rs = Some rows \<Longrightarrow> unlinked rows = unlinked rs"
  by (induction rs arbitrary: is_first prev rows) (auto simp: Let_def split: if_splits)

lemma replay_rows_unlinked: "replay_rows L ok prev n rs = Inr (m, rows) \<Longrightarrow> unlinked rows = unlinked rs"
  by (induction rs arbitrary: prev n m rows)
     (auto simp: Let_def split: if_splits sum.splits)

lemma reanchor_rows_walk:
  assumes "reanchor_rows L ok is_first prev rs = Some rows"
    and "null_prefix (map map_full_row rs)"
    and "started \<longrightarrow> \<not> is_first \<and> (\<forall>r \<in> set rs. d_prev r \<noteq> None)"
    and "is_first \<or> prev \<noteq> None"
  shows "walk_ok L prev started (map map_full_row rows)"
  using assms
proof (induction rs arbitrary: is_first prev started rows)
  case Nil
  then show ?case by simp
next
  case (Cons r rs)
  let ?np = "if is_first \<or> d_prev r = None then None else Some (unwrap_or_empty prev)"
  let ?l = "L (map_full_row (r\<lparr>d_prev := ?np\<rparr>))"
  from Cons.prems(1) obtain rest where rest: "reanchor_rows L ok False (Some ?l) rs = Some rest"
    and rows: "rows = r\<lparr>d_prev := ?np\<rparr> # rest"
    by (auto simp: Let_def split: if_splits)
  have "walk_ok L (Some ?l) (started \<or> ?np \<noteq> None) (map map_full_row rest)"
    using rest Cons.prems(2,3) by (intro Cons.IH) auto
  moreover have "case ?np of None \<Rightarrow> \<not> started
      | Some got \<Rightarrow> (case prev of None \<Rightarrow> True | Some want \<Rightarrow> want = got)"
    using Cons.prems(3,4) by (cases prev) auto
  ultimately show ?case by (simp add: rows)
qed

lemma replay_rows_walk:
  assumes "replay_rows L ok prev n rs = Inr (m, rows)"
    and "null_prefix (map map_full_row rs)"
    and "started \<longrightarrow> prev \<noteq> None \<and> (\<forall>r \<in> set rs. d_prev r \<noteq> None)"
  shows "walk_ok L prev started (map map_full_row rows)"
  using assms
proof (induction rs arbitrary: prev n m started rows)
  case Nil
  then show ?case by simp
next
  case (Cons r rs)
  let ?np = "if d_prev r = None then None else prev"
  let ?l = "L (map_full_row (r\<lparr>d_prev := ?np\<rparr>))"
  let ?n = "if ?np \<noteq> d_prev r then n + 1 else n"
  from Cons.prems(1) obtain rest where rest: "replay_rows L ok (Some ?l) ?n rs = Inr (m, rest)"
    and rows: "rows = r\<lparr>d_prev := ?np\<rparr> # rest"
    by (auto simp: Let_def split: if_splits sum.splits)
  have "walk_ok L (Some ?l) (started \<or> ?np \<noteq> None) (map map_full_row rest)"
    using rest Cons.prems(2,3) by (intro Cons.IH) auto
  moreover have "case ?np of None \<Rightarrow> \<not> started
      | Some got \<Rightarrow> (case prev of None \<Rightarrow> True | Some want \<Rightarrow> want = got)"
    using Cons.prems(3) by (cases prev) auto
  ultimately show ?case by (simp add: rows)
qed

subsection \<open>Re-stamping the pins\<close>

lemma refresh_head_pin_fields [simp]:
  "events (refresh_head_pin cr s h g db) = events db"
  "meta_epoch (refresh_head_pin cr s h g db) = meta_epoch db"
  "traces (refresh_head_pin cr s h g db) = traces db"
  by (auto simp: refresh_head_pin_def Let_def split: option.splits)

lemma current_scheme_cong: "meta_epoch db = meta_epoch db' \<Longrightarrow> current_scheme key db = current_scheme key db'"
  by (simp add: current_scheme_def read_epoch_def)

lemma refresh_head_pin_verified:
  assumes "current_scheme key db = Some s" and "walk_ok (row_link cr s) None False (chain_rows db)"
  shows "verified cr key (refresh_head_pin cr s True True db)"
proof (cases "events db = []")
  case True
  have "current_scheme key (refresh_head_pin cr s True True db) = Some s"
    using assms(1) current_scheme_cong [of "refresh_head_pin cr s True True db" db] by simp
  then show ?thesis
    by (rule verified_no_rows) (auto simp: True refresh_head_pin_def tip_row_def)
next
  case False
  have "current_scheme key (refresh_head_pin cr s True True db) = Some s"
    using assms(1) current_scheme_cong [of "refresh_head_pin cr s True True db" db] by simp
  moreover have "chain_rows (refresh_head_pin cr s True True db) = chain_rows db"
    by (simp add: chain_rows_def)
  ultimately show ?thesis
    using False assms(2)
    by (intro verified_stamped)
       (auto simp: refresh_head_pin_def tip_row_def first_row_def Let_def chain_rows_def last_map list.map_sel(1))
qed

lemma verified_null_prefix: "verified cr key db \<Longrightarrow> null_prefix (chain_rows db)"
  by (auto simp: verified_def verify_snapshot_iff dest: walk_ok_null_prefix)

lemma verified_scheme: "verified cr key db \<Longrightarrow> current_scheme key db = Some s \<Longrightarrow>
    walk_ok (row_link cr s) None False (chain_rows db)"
  by (auto simp: verified_def verify_snapshot_iff)


subsection \<open>Prune\<close>

lemma fresh_id_subset:
  assumes "d_id ` set (events db') \<subseteq> d_id ` set (events db)" and "fresh_id env db"
  shows "fresh_id env db'"
  unfolding fresh_id_def
proof
  fix r assume "r \<in> set (events db')"
  with assms(1) obtain r' where "r' \<in> set (events db)" and "d_id r = d_id r'"
    by blast
  with assms(2) show "d_id r < se_new_id env"
    by (simp add: fresh_id_def)
qed

lemma prune_result:
  assumes "prune_audit_retention cr key env db = (res, db')"
  shows "db' = db \<and> (res = None \<or> res = Some 0) \<or>
    (\<exists>cutoff s rows. pe_cutoff env = Some cutoff \<and> current_scheme key db = Some s \<and>
       verified cr key db \<and>
       reanchor_rows (row_link cr s) (pe_row_ok env) True None
             (filter (\<lambda>r. \<not> d_ts r < cutoff) (events db)) = Some rows \<and>
       res = Some (length (filter (\<lambda>r. d_ts r < cutoff) (events db))) \<and>
       db' = snd (record_event cr key (pe_record env) True AK_Retention ''system'' cutoff AS_Ok
             (''pruned:'' @ show_nat (length (filter (\<lambda>r. d_ts r < cutoff) (events db))))
             ((refresh_head_pin cr s (pe_head_pin_ok env) (pe_genesis_pin_ok env)
                 (db\<lparr>events := rows\<rparr>))\<lparr>traces := filter (\<lambda>t. fst t \<in> d_id ` set rows) (traces db)\<rparr>)))"
proof (cases "pe_cutoff env")
  case None
  with assms show ?thesis by (simp add: prune_audit_retention_def)
next
  case (Some cutoff)
  note cutoff = this
  show ?thesis
  proof (cases "current_scheme key db")
    case None
    with assms cutoff show ?thesis
      by (simp add: prune_audit_retention_def Let_def split: if_splits)
  next
    case (Some s)
    show ?thesis
      using assms cutoff Some
      by (cases "reanchor_rows (row_link cr s) (pe_row_ok env) True None
             (filter (\<lambda>r. \<not> d_ts r < cutoff) (events db))")
         (simp_all add: prune_audit_retention_def Let_def verify_chain_eq split: if_splits)
  qed
qed

lemma reanchored_inv:
  assumes inv: "audit_inv cr key db" and s: "current_scheme key db = Some s"
    and re: "reanchor_rows (row_link cr s) ok True None (filter P (events db)) = Some rows"
  shows "audit_inv cr key (refresh_head_pin cr s True True (db\<lparr>events := rows\<rparr>))"
proof -
  have "null_prefix (map map_full_row (filter P (events db)))"
    using inv verified_null_prefix [of cr key db]
    by (intro null_prefix_filter) (simp add: audit_inv_def chain_rows_def)
  with re have w: "walk_ok (row_link cr s) None False (map map_full_row rows)"
    by (auto intro: reanchor_rows_walk)
  have ids: "map d_id rows = map d_id (filter P (events db))"
    using unlinked_ids [OF reanchor_rows_unlinked [OF re]] .
  have "sorted_wrt (<) (map d_id (filter P (events db)))"
    using inv by (auto simp: audit_inv_def sorted_wrt_map intro: sorted_wrt_filter)
  then show ?thesis
    using s w by (simp add: audit_inv_def ids refresh_head_pin_verified)
qed

lemma prune_audit_retention_inv:
  assumes inv: "audit_inv cr key db" and fresh: "fresh_id (pe_record env) db"
    and pins: "pe_head_pin_ok env" "pe_genesis_pin_ok env"
  shows "audit_inv cr key (snd (prune_audit_retention cr key env db))"
proof -
  obtain res db' where eq: "prune_audit_retention cr key env db = (res, db')"
    by (meson surj_pair)
  have "audit_inv cr key db'"
    using prune_result [OF eq]
  proof (elim disjE conjE exE, goal_cases)
    case (3 cutoff s rows)
    note pruned = 3
    let ?d = "refresh_head_pin cr s True True (db\<lparr>events := rows\<rparr>)"
    have "audit_inv cr key (?d\<lparr>traces := filter (\<lambda>t. fst t \<in> d_id ` set rows) (traces db)\<rparr>)"
      using reanchored_inv [OF inv pruned(2) pruned(4)] by simp
    moreover have "set (map d_id rows) \<subseteq> set (map d_id (events db))"
      unfolding unlinked_ids [OF reanchor_rows_unlinked [OF pruned(4)]] by auto
    then have "fresh_id (pe_record env) (?d\<lparr>traces := filter (\<lambda>t. fst t \<in> d_id ` set rows) (traces db)\<rparr>)"
      by (intro fresh_id_subset [OF _ fresh]) simp
    ultimately show ?case
      unfolding pruned(6) using pins record_event_inv by simp
  qed (use inv in simp_all)
  then show ?thesis by (simp add: eq)
qed

subsection \<open>Re-anchor\<close>

lemma reanchor_result:
  assumes "reanchor_to_hmac cr key env db = (res, db')"
  shows "db' = db \<and> (\<exists>e. res = Inl e) \<or>
    (\<exists>k. key = Some k \<and> read_epoch db = Epoch_Hmac256 \<and> verified cr key db \<and> res = Inr 0 \<and>
       db' = refresh_head_pin cr (Scheme_Hmac k) (re_head_pin_ok env) (re_genesis_pin_ok env) db) \<or>
    (\<exists>k n rows. key = Some k \<and> read_epoch db \<noteq> Epoch_Hmac256 \<and> verified cr key db \<and>
       replay_rows (row_link cr (Scheme_Hmac k)) (re_row_ok env) None 0 (events db) = Inr (n, rows) \<and>
       db' = refresh_head_pin cr (Scheme_Hmac k) (re_head_pin_ok env) (re_genesis_pin_ok env)
                   (db\<lparr>events := rows, meta_epoch := Some EPOCH_HMAC\<rparr>) \<and>
       res = (if re_post_snap_ok env \<and> verified cr key db' then Inr n else Inl RA_PostCondition))"
proof (cases key)
  case None
  with assms show ?thesis by (auto simp: reanchor_to_hmac_def)
next
  case (Some k)
  show ?thesis
  proof (cases "replay_rows (row_link cr (Scheme_Hmac k)) (re_row_ok env) None 0 (events db)")
    case (Inl e)
    with assms Some show ?thesis
      by (simp add: reanchor_to_hmac_def Let_def verify_chain_eq split: if_splits) blast+
  next
    case (Inr p)
    then show ?thesis
      using assms Some
      by (cases p; cases "read_epoch db = Epoch_Hmac256")
         (simp_all add: reanchor_to_hmac_def Let_def verify_chain_eq split: if_splits, blast+)
  qed
qed

lemma replayed_verified:
  assumes "verified cr (Some k) db"
    and "replay_rows (row_link cr (Scheme_Hmac k)) ok None n (events db) = Inr (m, rows)"
  shows "verified cr (Some k) (refresh_head_pin cr (Scheme_Hmac k) True True
           (db\<lparr>events := rows, meta_epoch := Some EPOCH_HMAC\<rparr>))"
proof -
  have "walk_ok (row_link cr (Scheme_Hmac k)) None False (map map_full_row rows)"
    using replay_rows_walk [OF assms(2), of False] verified_null_prefix [OF assms(1)]
    by (simp add: chain_rows_def)
  then show ?thesis
    by (auto simp del: row_link.simps intro!: refresh_head_pin_verified)
qed

lemma replay_rows_error: "replay_rows L ok prev n rs = Inl e \<Longrightarrow> \<exists>i. e = RA_Update i"
  by (induction rs arbitrary: prev n) (auto simp: Let_def split: if_splits sum.splits)

lemma reanchor_to_hmac_inv:
  assumes inv: "audit_inv cr key db" and pins: "re_head_pin_ok env" "re_genesis_pin_ok env"
  shows "audit_inv cr key (snd (reanchor_to_hmac cr key env db))"
proof -
  obtain res db' where eq: "reanchor_to_hmac cr key env db = (res, db')"
    by (meson surj_pair)
  have "audit_inv cr key db'"
    using reanchor_result [OF eq]
  proof (elim disjE conjE exE, goal_cases)
    case 1
    with inv show ?case by simp
  next
    case (2 k)
    then have "current_scheme key db = Some (Scheme_Hmac k)"
      by (simp add: current_scheme_def)
    with 2 inv pins show ?case
      by (simp add: audit_inv_def refresh_head_pin_verified verified_scheme)
  next
    case (3 k n rows)
    note replayed = 3
    have "verified cr key db'"
      using replayed_verified [of cr k db] replayed pins by auto
    moreover have "map d_id rows = map d_id (events db)"
      using unlinked_ids [OF replay_rows_unlinked [OF replayed(4)]] .
    ultimately show ?case
      using inv replayed(5) by (simp add: audit_inv_def)
  qed
  then show ?thesis by (simp add: eq)
qed


subsection \<open>Bootstrap and pin upgrade\<close>

lemma bootstrap_epoch_inv:
  assumes "audit_inv cr key db"
  shows "audit_inv cr key (snd (bootstrap_epoch key count_ok stamp_ok db))"
  using assms verified_empty_pins [of cr key db]
  by (auto simp: bootstrap_epoch_def audit_inv_def intro!: verified_no_rows)

lemma upgrade_mac_unkeyed [simp]:
  "upgrade_mac cr Scheme_Legacy = (\<lambda>_. None)" "upgrade_mac cr Scheme_Sha7 = (\<lambda>_. None)"
  "Option.bind x (\<lambda>_. None) = None"
  by (auto simp: upgrade_mac_def fun_eq_iff bind_eq_None_conv)

definition with_mac :: "crypto \<Rightarrow> scheme \<Rightarrow> head_pin \<Rightarrow> head_pin" where
  "with_mac cr s pin = (case upgrade_mac cr s pin of None \<Rightarrow> pin | Some p \<Rightarrow> p)"

lemma with_mac_simps [simp]:
  "pin_id (with_mac cr s pin) = pin_id pin" "pin_hash (with_mac cr s pin) = pin_hash pin"
  "with_mac cr Scheme_Legacy pin = pin" "with_mac cr Scheme_Sha7 pin = pin"
  "with_mac cr s (pin_for_row cr s row) = pin_for_row cr s row"
  by (auto simp: with_mac_def upgrade_mac_def pin_for_row_def Let_def split: scheme.splits)

lemma with_mac_valid:
  "mac_is_valid cr (with_mac cr (Scheme_Hmac k) pin) k \<longleftrightarrow> pin_mac_field pin = None \<or> mac_is_valid cr pin k"
  by (auto simp: with_mac_def upgrade_mac_def mac_is_valid_def split: option.splits)

text \<open>What \<^verbatim>\<open>upgrade_pins\<close> leaves when every write lands: the fast path and the slow path agree.\<close>

lemma upgrade_pins_eq:
  assumes "current_scheme key db = Some s" and "events db \<noteq> []"
    and "verify_chain_in_snapshot cr key db False" and "autocommit \<longrightarrow> snap"
  shows "snd (upgrade_pins cr key autocommit snap True True True db) =
     db\<lparr>meta_head := map_option (with_mac cr s) (meta_head db),
        meta_genesis := Some (case meta_genesis db of
           None \<Rightarrow> pin_for_row cr s (hd (chain_rows db)) | Some p \<Rightarrow> with_mac cr s p)\<rparr>"
proof -
  have rows: "first_row db = Some (hd (chain_rows db))" "\<exists>t. tip_row db = Some t"
    using assms(2) by (auto simp: first_row_def tip_row_def chain_rows_def list.map_sel(1))
  have ver: "verify_chain_inner cr key autocommit snap db False"
    using assms(3,4) by (simp add: verify_chain_inner_def)
  have id: "db\<lparr>meta_head := meta_head db, meta_genesis := meta_genesis db\<rparr> = db" by simp
  show ?thesis
    using assms(1) rows ver
    by (cases s; cases "meta_head db"; cases "meta_genesis db")
       (auto simp: upgrade_pins_def upgrade_mac_def Let_def with_mac_def pin_for_row_def split: if_splits)
qed

lemma pin_matches_with_mac [simp]: "pin_matches (map_option (with_mac cr s) p) at = pin_matches p at"
  by (cases p; cases at) auto

lemma upgrade_pins_verifies:
  assumes s: "current_scheme key db = Some s" and ne: "events db \<noteq> []"
    and ver: "verify_chain_in_snapshot cr key db False" and snap: "autocommit \<longrightarrow> snap"
    and macs: "\<And>k. s = Scheme_Hmac k \<Longrightarrow> meta_head db \<noteq> None \<and>
       (\<forall>p. meta_head db = Some p \<or> meta_genesis db = Some p \<longrightarrow>
            pin_mac_field p = None \<or> mac_is_valid cr p k)"
  shows "verified cr key (snd (upgrade_pins cr key autocommit snap True True True db))"
proof -
  have pm: "pin_matches (Some (case meta_genesis db of
      None \<Rightarrow> pin_for_row cr s (hd (chain_rows db)) | Some p \<Rightarrow> with_mac cr s p))
      (first_at (row_link cr s) (chain_rows db))"
    using ver s ne by (cases "meta_genesis db") (auto simp: verify_snapshot_iff first_at_def)
  have mk: "pin_macs_ok cr k True (db\<lparr>meta_head := map_option (with_mac cr s) (meta_head db),
        meta_genesis := Some (case meta_genesis db of
           None \<Rightarrow> pin_for_row cr s (hd (chain_rows db)) | Some p \<Rightarrow> with_mac cr s p)\<rparr>)"
    if "s = Scheme_Hmac k" for k
    using macs [OF that] that
    by (auto simp: pin_macs_ok_def with_mac_valid pin_for_row_mac_valid split: option.splits)
  show ?thesis
    unfolding upgrade_pins_eq [OF s ne ver snap] verified_def verify_snapshot_iff
    using ver s ne pm mk
    by (intro exI [of _ s]) (auto simp: verify_snapshot_iff)
qed

lemma upgrade_pins_inv:
  assumes inv: "audit_inv cr key db"
  shows "audit_inv cr key (snd (upgrade_pins cr key autocommit snap st h g db))"
proof -
  from inv obtain s where s: "current_scheme key db = Some s"
    by (auto simp: audit_inv_def verified_def verify_snapshot_iff)
  show ?thesis
  proof (cases "events db = [] \<or> meta_genesis db \<noteq> None \<or> \<not> st")
    case True
    have "snd (upgrade_pins cr key autocommit snap st h g db) = db"
      using inv s True
      by (cases s)
         (auto simp: upgrade_pins_def upgrade_mac_def first_row_def tip_row_def Let_def audit_inv_def
           verified_def verify_snapshot_iff pin_macs_ok_def mac_is_valid_def
           split: if_splits option.splits)
    with inv show ?thesis by simp
  next
    case False
    then have ne: "events db \<noteq> []" and g0: "meta_genesis db = None" by auto
    have nk: "s \<noteq> Scheme_Hmac k" for k
      using inv s ne g0
      by (auto simp: audit_inv_def verified_def verify_snapshot_iff pin_macs_ok_def split: if_splits)
    have "snd (upgrade_pins cr key autocommit snap st h g db) =
       (if autocommit \<longrightarrow> snap then db\<lparr>meta_genesis := Some (pin_for_row cr s (hd (chain_rows db)))\<rparr> else db)"
      using s ne g0 nk False inv
      by (cases s)
         (auto simp: upgrade_pins_def upgrade_mac_def first_row_def tip_row_def Let_def chain_rows_def
           list.map_sel(1) verify_chain_inner_def audit_inv_def verified_def verify_snapshot_iff
           split: if_splits option.splits)
    with inv s ne nk show ?thesis
      by (auto simp: audit_inv_def verified_def verify_snapshot_iff first_at_def)
  qed
qed


text \<open>With the pin writes landed and a snapshot to read, the re-anchor's own check passes.\<close>

lemma reanchor_post_verified:
  assumes "reanchor_to_hmac cr key env db = (Inl RA_PostCondition, db')"
  shows "\<not> (re_head_pin_ok env \<and> re_genesis_pin_ok env \<and> re_post_snap_ok env)"
proof
  assume ok: "re_head_pin_ok env \<and> re_genesis_pin_ok env \<and> re_post_snap_ok env"
  from assms obtain k where key: "key = Some k"
    by (cases key) (auto simp: reanchor_to_hmac_def)
  show False
  proof (cases "replay_rows (row_link cr (Scheme_Hmac k)) (re_row_ok env) None 0 (events db)")
    case (Inl e)
    with replay_rows_error [OF Inl] assms key show ?thesis
      by (auto simp: reanchor_to_hmac_def split: if_splits)
  next
    case (Inr p)
    then obtain n rows where "replay_rows (row_link cr (Scheme_Hmac k)) (re_row_ok env) None 0 (events db) = Inr (n, rows)"
      by (cases p) auto
    with replayed_verified [of cr k db] ok assms key show ?thesis
      by (auto simp: reanchor_to_hmac_def Let_def verify_chain_eq simp del: row_link.simps split: if_splits)
  qed
qed

end
