(* ===== verification/Audit_Tamper.thy ===== *)
theory Audit_Tamper
  imports Audit_Safety
begin

text \<open>
  Tamper evidence of the audit chain, without assuming anything of the hash: whenever two
  chains verify under the same pins, either they carry the same evidence row by row, or
  the two of them contain an explicit collision of the digest.  The historical five-field
  format has no such theorem; what it leaves open is stated as well.
\<close>

definition anchored :: "chain_row list \<Rightarrow> bool" where
  "anchored rows \<longleftrightarrow> rows \<noteq> [] \<and> row_prev_hash (hd rows) = None \<and>
     (\<forall>r \<in> set (tl rows). row_prev_hash r \<noteq> None)"

lemma anchored_snoc:
  "anchored (rs @ [r]) \<longleftrightarrow>
     (if rs = [] then row_prev_hash r = None else anchored rs \<and> row_prev_hash r \<noteq> None)"
  by (cases rs) (auto simp: anchored_def)

definition digest_collision :: "crypto \<Rightarrow> scheme \<Rightarrow> chain_row list \<Rightarrow> chain_row list \<Rightarrow> bool" where
  "digest_collision cr s rows rows' \<longleftrightarrow>
     (\<exists>r \<in> set rows. \<exists>r' \<in> set rows'. link_message s r \<noteq> link_message s r' \<and>
        link_digest cr s (link_message s r) = link_digest cr s (link_message s r'))"

definition digest32 :: "crypto \<Rightarrow> scheme \<Rightarrow> bool" where
  "digest32 cr s \<longleftrightarrow> (\<forall>m. length (link_digest cr s m) = 32)"

lemma digest_collision_append:
  "\<not> digest_collision cr s (rs @ [r]) (rs' @ [r']) \<Longrightarrow> \<not> digest_collision cr s rs rs'"
  by (auto simp: digest_collision_def)

lemma row_link_not_Nil: "digest32 cr s \<Longrightarrow> row_link cr s r \<noteq> []"
  by (metis digest32_def hex_encode_eq_Nil list.size(3) row_link_eq zero_neq_numeral)

lemma row_link_inj:
  assumes "row_link cr s r = row_link cr s r'" and "r \<in> set rows" and "r' \<in> set rows'"
    and "\<not> digest_collision cr s rows rows'" and "s \<noteq> Scheme_Legacy" and "row_ok r" and "row_ok r'"
  shows "same_evidence s r r'"
proof -
  have "link_digest cr s (link_message s r) = link_digest cr s (link_message s r')"
    using assms(1) by (auto simp: row_link_eq dest: hex_encode_inj)
  with assms(2-4) have "link_message s r = link_message s r'"
    by (auto simp: digest_collision_def)
  with assms(5-7) show ?thesis by (intro link_message_inj)
qed

lemma same_evidence_prev:
  "same_evidence s r r' \<Longrightarrow> unwrap_or_empty (row_prev_hash r) = unwrap_or_empty (row_prev_hash r')"
  by (simp add: same_evidence_def link_fields_def)

lemma tamper_core:
  assumes "digest32 cr s" and "s \<noteq> Scheme_Legacy"
    and "walk_ok (row_link cr s) None False rows" and "anchored rows"
    and "walk_ok (row_link cr s) None False rows'" and "rows' \<noteq> []"
    and "unwrap_or_empty (row_prev_hash (hd rows')) = []"
    and "\<forall>r \<in> set rows \<union> set rows'. row_ok r"
    and "row_link cr s (last rows) = row_link cr s (last rows')"
    and "\<not> digest_collision cr s rows rows'"
  shows "\<exists>extra tail. rows' = extra @ tail \<and> (\<forall>r \<in> set extra. row_prev_hash r = None) \<and>
           list_all2 (same_evidence s) rows tail"
  using assms
proof (induction rows arbitrary: rows' rule: rev_induct)
  case Nil
  then show ?case by (simp add: anchored_def)
next
  case (snoc r rs)
  obtain rs' r' where rows': "rows' = rs' @ [r']"
    using snoc.prems(6) by (cases rows' rule: rev_cases) auto
  have ev: "same_evidence s r r'"
    using snoc.prems(2,8-10) by (intro row_link_inj [of cr s r r' "rs @ [r]" rows']) (auto simp: rows')
  note nn = row_link_not_Nil [OF snoc.prems(1)]
  show ?case
  proof (cases "rs = []")
    case True
    with snoc.prems(4) same_evidence_prev [OF ev] have "unwrap_or_empty (row_prev_hash r') = []"
      by (simp add: anchored_def)
    with snoc.prems(5) nn [of "last rs'"] have "\<forall>x \<in> set rs'. row_prev_hash x = None"
      by (cases "rs' = []"; cases "row_prev_hash r'") (auto simp: rows' walk_ok_snoc)
    then show ?thesis
      using True ev rows' by (intro exI [of _ rs'] exI [of _ "[r']"]) simp
  next
    case False
    with snoc.prems(3,4) have prev: "row_prev_hash r = Some (row_link cr s (last rs))"
      by (auto simp: walk_ok_snoc anchored_snoc split: option.splits)
    with same_evidence_prev [OF ev] nn have prev': "row_prev_hash r' = Some (row_link cr s (last rs))"
      by (cases "row_prev_hash r'") auto
    with snoc.prems(7) nn have ne: "rs' \<noteq> []"
      by (auto simp: rows')
    have "\<exists>extra tail. rs' = extra @ tail \<and> (\<forall>r \<in> set extra. row_prev_hash r = None) \<and>
           list_all2 (same_evidence s) rs tail"
    proof (rule snoc.IH)
      show "unwrap_or_empty (row_prev_hash (hd rs')) = []" using snoc.prems(7) ne by (simp add: rows')
      show "row_link cr s (last rs) = row_link cr s (last rs')"
        using snoc.prems(5) prev' ne by (simp add: rows' walk_ok_snoc)
      show "\<not> digest_collision cr s rs rs'"
        using snoc.prems(10) digest_collision_append by (simp add: rows')
    qed (use snoc.prems False ne in \<open>auto simp: rows' walk_ok_snoc anchored_snoc\<close>)
    then obtain extra tail where "rs' = extra @ tail" "\<forall>r \<in> set extra. row_prev_hash r = None"
      "list_all2 (same_evidence s) rs tail" by blast
    then show ?thesis
      using ev by (intro exI [of _ extra] exI [of _ "tail @ [r']"]) (simp add: rows' list_all2_appendI)
  qed
qed


subsection \<open>Two stores under the same pins\<close>

lemma verified_hmac:
  assumes "verified cr (Some k) db" and "read_epoch db = Epoch_Hmac256" and "events db \<noteq> []"
  obtains h g where "meta_head db = Some h" and "meta_genesis db = Some g"
    and "walk_ok (row_link cr (Scheme_Hmac k)) None False (chain_rows db)"
    and "pin_id g = row_id (hd (chain_rows db))"
    and "pin_hash g = row_link cr (Scheme_Hmac k) (hd (chain_rows db))"
    and "pin_hash h = row_link cr (Scheme_Hmac k) (last (chain_rows db))"
    and "mac_is_valid cr h k" and "mac_is_valid cr g k"
  using assms
  by (auto simp: verified_def verify_snapshot_iff current_scheme_def pin_macs_ok_def first_at_def
      last_at_def simp del: row_link.simps split: if_splits)

lemma tamper_hmac:
  assumes ver: "verified cr (Some k) db" "verified cr (Some k) db'"
    and epoch: "read_epoch db = Epoch_Hmac256" "read_epoch db' = Epoch_Hmac256"
    and anch: "anchored (chain_rows db)"
    and ids: "sorted_wrt (<) (map d_id (events db'))"
    and pins: "meta_head db' = meta_head db" "meta_genesis db' = meta_genesis db"
    and ok: "\<forall>r \<in> set (chain_rows db) \<union> set (chain_rows db'). row_ok r"
    and len: "digest32 cr (Scheme_Hmac k)"
    and nc: "\<not> digest_collision cr (Scheme_Hmac k) (chain_rows db) (chain_rows db')"
  shows "list_all2 (same_evidence (Scheme_Hmac k)) (chain_rows db) (chain_rows db')"
proof -
  let ?s = "Scheme_Hmac k" and ?R = "chain_rows db" and ?R' = "chain_rows db'"
  have ne: "events db \<noteq> []" using anch by (auto simp: anchored_def chain_rows_def)
  from verified_hmac [OF ver(1) epoch(1) ne] obtain h g where
    m: "meta_head db = Some h" "meta_genesis db = Some g"
    and w: "walk_ok (row_link cr ?s) None False ?R"
    and g: "pin_id g = row_id (hd ?R)" "pin_hash g = row_link cr ?s (hd ?R)"
    and h: "pin_hash h = row_link cr ?s (last ?R)" .
  have ne': "events db' \<noteq> []"
    using verified_empty_pins [OF ver(2)] pins(1) m(1) by auto
  from verified_hmac [OF ver(2) epoch(2) ne'] obtain h' g' where
    m': "meta_head db' = Some h'" "meta_genesis db' = Some g'"
    and w': "walk_ok (row_link cr ?s) None False ?R'"
    and g': "pin_id g' = row_id (hd ?R')" "pin_hash g' = row_link cr ?s (hd ?R')"
    and h': "pin_hash h' = row_link cr ?s (last ?R')" .
  have heads: "row_link cr ?s (last ?R) = row_link cr ?s (last ?R')"
    and gens: "row_link cr ?s (hd ?R) = row_link cr ?s (hd ?R')" "row_id (hd ?R) = row_id (hd ?R')"
    using m m' pins h h' g g' by auto
  have "same_evidence ?s (hd ?R) (hd ?R')"
    using ok ne ne' nc gens(1) by (intro row_link_inj [of cr ?s _ _ ?R ?R']) auto
  then have "unwrap_or_empty (row_prev_hash (hd ?R')) = []"
    using same_evidence_prev anch by (force simp: anchored_def)
  from tamper_core [OF len _ w anch w' _ this ok heads nc] ne' obtain extra tail
    where split: "?R' = extra @ tail" "list_all2 (same_evidence ?s) ?R tail" by auto
  have "extra = []"
  proof (rule ccontr)
    assume "extra \<noteq> []"
    moreover obtain t ts where tail: "tail = t # ts" "row_id t = row_id (hd ?R)"
      using split(2) ne by (cases ?R; cases tail) (auto simp: same_evidence_def)
    moreover have "sorted_wrt (<) (map row_id ?R')"
      using ids by (simp add: chain_rows_def comp_def)
    ultimately show False
      using gens(2) by (cases extra) (auto simp: split(1))
  qed
  with split show ?thesis by simp
qed

subsection \<open>Anchoring is kept\<close>

lemma reanchor_rows_prev:
  "reanchor_rows L ok False prev rs = Some rows \<Longrightarrow> \<forall>r \<in> set rs. \<exists>y. d_prev r = Some y \<Longrightarrow>
   x \<in> set rows \<Longrightarrow> \<exists>y. d_prev x = Some y"
  by (induction rs arbitrary: prev rows) (auto simp: Let_def split: if_splits)

lemma reanchor_rows_anchored:
  assumes "reanchor_rows L ok True None rs = Some rows" and "rs \<noteq> []" and "\<forall>r \<in> set (tl rs). d_prev r \<noteq> None"
  shows "anchored (map map_full_row rows)"
proof -
  obtain a list where rs: "rs = a # list" using assms(2) by (cases rs) auto
  with assms(1) obtain rest where "reanchor_rows L ok False (Some (L (map_full_row (a\<lparr>d_prev := None\<rparr>)))) list = Some rest"
    and rows: "rows = a\<lparr>d_prev := None\<rparr> # rest"
    by (auto simp: Let_def split: if_splits)
  from reanchor_rows_prev [OF this(1)] assms(3) show ?thesis
    by (simp add: rs rows anchored_def)
qed

lemma replay_rows_prev:
  "replay_rows L ok (Some p) n rs = Inr (m, rows) \<Longrightarrow> \<forall>r \<in> set rs. \<exists>y. d_prev r = Some y \<Longrightarrow>
   x \<in> set rows \<Longrightarrow> \<exists>y. d_prev x = Some y"
  by (induction rs arbitrary: p n m rows) (auto simp: Let_def split: if_splits sum.splits)

lemma replay_rows_anchored:
  assumes "replay_rows L ok None n rs = Inr (m, rows)" and "rs \<noteq> []" and "\<forall>r \<in> set (tl rs). d_prev r \<noteq> None"
  shows "anchored (map map_full_row rows)"
proof -
  obtain a list where rs: "rs = a # list" using assms(2) by (cases rs) auto
  with assms(1) obtain n' rest where
    "replay_rows L ok (Some (L (map_full_row (a\<lparr>d_prev := None\<rparr>)))) n' list = Inr (m, rest)"
    and rows: "rows = a\<lparr>d_prev := None\<rparr> # rest"
    by (auto simp: Let_def split: if_splits sum.splits)
  from replay_rows_prev [OF this(1)] assms(3) show ?thesis
    by (simp add: rs rows anchored_def)
qed

definition anchored_db :: "audit_db \<Rightarrow> bool" where
  "anchored_db db \<longleftrightarrow> events db = [] \<or> anchored (chain_rows db)"

lemma in_set_tl: "x \<in> set (tl xs) \<Longrightarrow> x \<in> set xs"
  by (cases xs) auto

lemma anchored_tl: "anchored_db db \<Longrightarrow> \<forall>r \<in> set (tl (filter P (events db))). d_prev r \<noteq> None"
  by (cases "events db")
     (auto simp: anchored_db_def anchored_def chain_rows_def dest: in_set_tl)

lemma audit_write_body_anchored:
  assumes "audit_write_body cr key env kind actor target status detail tenant db = Inr (rid, db')"
    and "fresh_id env db" and "anchored_db db"
  shows "anchored_db db'"
proof -
  from assms(1,2) obtain s where
    ev: "events db' = events db @ [appended_row cr key env s kind actor target status detail tenant db]"
    by (rule audit_write_body_Inr) blast
  with assms(3) show ?thesis
    by (auto simp: anchored_db_def chain_rows_def anchored_snoc tip_row_def)
qed

lemma record_tenant_checked_anchored:
  assumes "anchored_db db" and "fresh_id env db"
  shows "anchored_db (snd (record_tenant_checked cr key env is_top kind actor target status detail tenant db))"
proof -
  obtain r db' where eq:
    "record_tenant_checked cr key env is_top kind actor target status detail tenant db = (r, db')"
    by (meson surj_pair)
  show ?thesis
    unfolding eq snd_conv using eq
    by (cases rule: record_tenant_checked_cases) (use assms audit_write_body_anchored in auto)
qed

end
