(* ===== verification/Audit_Properties.thy ===== *)
theory Audit_Properties
  imports Audit_Tamper
begin

text \<open>
  The audit chain as a transition system, and the properties of the component.  A step is
  one call of one operation with any environment: any statement may fail, and a \<^verbatim>\<open>COMMIT\<close>
  may leave the caller in doubt.  Two side conditions are SQLite's or the operator's: a new
  row id exceeds every id in the table, and the two pin writes of a prune or a re-anchor,
  whose results the code drops, land.
\<close>

inductive audit_step :: "crypto \<Rightarrow> str option \<Rightarrow> audit_db \<Rightarrow> audit_db \<Rightarrow> bool" for cr key where
  step_record: "fresh_id env db \<Longrightarrow>
     audit_step cr key db
       (snd (record_tenant_checked cr key env is_top kind actor target status detail tenant db))"
| step_read: "fresh_id env db \<Longrightarrow>
     audit_step cr key db
       (snd (record_read_event cr key env is_top trace_ok kind actor target td tenant db))"
| step_prune: "fresh_id (pe_record env) db \<Longrightarrow> pe_head_pin_ok env \<Longrightarrow> pe_genesis_pin_ok env \<Longrightarrow>
     audit_step cr key db (snd (prune_audit_retention cr key env db))"
| step_reanchor: "re_head_pin_ok renv \<Longrightarrow> re_genesis_pin_ok renv \<Longrightarrow>
     audit_step cr key db (snd (reanchor_to_hmac cr key renv db))"
| step_bootstrap: "audit_step cr key db (snd (bootstrap_epoch key count_ok stamp_ok db))"
| step_upgrade: "audit_step cr key db
       (snd (upgrade_pins cr key autocommit snap_ok stamp_ok head_ok genesis_ok db))"

inductive audit_reach :: "crypto \<Rightarrow> str option \<Rightarrow> audit_db \<Rightarrow> bool" for cr key where
  reach_empty: "audit_reach cr key empty_db"
| reach_step: "audit_reach cr key db \<Longrightarrow> audit_step cr key db db' \<Longrightarrow> audit_reach cr key db'"

inductive_cases audit_stepE: "audit_step cr key db db'"

lemma empty_db_inv: "audit_inv cr key empty_db"
  by (auto simp: audit_inv_def empty_db_def current_scheme_def read_epoch_def intro!: verified_no_rows)

lemma audit_step_inv: "audit_step cr key db db' \<Longrightarrow> audit_inv cr key db \<Longrightarrow> audit_inv cr key db'"
  by (erule audit_stepE)
     (simp_all add: record_tenant_checked_inv record_read_event_inv prune_audit_retention_inv
       reanchor_to_hmac_inv bootstrap_epoch_inv upgrade_pins_inv)

subsection \<open>Anchoring along the steps\<close>

lemma anchored_db_cong: "events db' = events db \<Longrightarrow> anchored_db db' = anchored_db db"
  by (simp add: anchored_db_def chain_rows_def)

lemma record_tenant_anchored:
  "anchored_db db \<Longrightarrow> fresh_id env db \<Longrightarrow>
   anchored_db (snd (record_tenant cr key env is_top kind actor target status detail tenant db))"
  using record_tenant_checked_anchored
    [of db env cr key is_top kind actor target status detail tenant]
  by (auto simp: record_tenant_def split: prod.splits)

lemma record_read_event_anchored:
  assumes "anchored_db db" and "fresh_id env db"
  shows "anchored_db (snd (record_read_event cr key env is_top trace_ok kind actor target td tenant db))"
proof -
  have "events (snd (record_read_event cr key env is_top trace_ok kind actor target td tenant db)) =
        events (snd (record_tenant cr key env is_top kind actor target AS_Ok
          (case td of None \<Rightarrow> target | Some t \<Rightarrow> t) tenant db))"
    by (auto simp: record_read_event_def Let_def split: prod.splits option.splits)
  with record_tenant_anchored [OF assms] show ?thesis
    using anchored_db_cong by blast
qed

lemma prune_anchored:
  assumes anch: "anchored_db db" and fresh: "fresh_id (pe_record env) db"
  shows "anchored_db (snd (prune_audit_retention cr key env db))"
proof -
  obtain res db' where eq: "prune_audit_retention cr key env db = (res, db')"
    by (meson surj_pair)
  have "anchored_db db'"
    using prune_result [OF eq]
  proof (elim disjE conjE exE, goal_cases)
    case (3 cutoff s rows)
    let ?live = "filter (\<lambda>r. \<not> d_ts r < cutoff) (events db)"
    let ?d = "(refresh_head_pin cr s (pe_head_pin_ok env) (pe_genesis_pin_ok env)
        (db\<lparr>events := rows\<rparr>))\<lparr>traces := filter (\<lambda>t. fst t \<in> d_id ` set rows) (traces db)\<rparr>"
    have ids: "map d_id rows = map d_id ?live"
      using unlinked_ids [OF reanchor_rows_unlinked [OF 3(4)]] .
    have "anchored_db ?d"
    proof (cases "?live = []")
      case True
      with ids show ?thesis by (simp add: anchored_db_def)
    next
      case False
      with reanchor_rows_anchored [OF 3(4)] anchored_tl [OF anch] show ?thesis
        by (simp add: anchored_db_def chain_rows_def)
    qed
    moreover have "set (map d_id rows) \<subseteq> set (map d_id (events db))"
      unfolding ids by auto
    then have "fresh_id (pe_record env) ?d"
      by (intro fresh_id_subset [OF _ fresh]) simp
    ultimately show ?case
      unfolding 3(6) record_event_def by (rule record_tenant_anchored)
  qed (use anch in simp_all)
  then show ?thesis by (simp add: eq)
qed

lemma reanchor_anchored:
  assumes anch: "anchored_db db"
  shows "anchored_db (snd (reanchor_to_hmac cr key renv db))"
proof -
  obtain res db' where eq: "reanchor_to_hmac cr key renv db = (res, db')"
    by (meson surj_pair)
  have "anchored_db db'"
    using reanchor_result [OF eq]
  proof (elim disjE conjE exE, goal_cases)
    case (3 k n rows)
    show ?case
    proof (cases "events db = []")
      case True
      with 3(4,5) show ?thesis by (simp add: anchored_db_def)
    next
      case False
      with replay_rows_anchored [OF 3(4)] anchored_tl [OF anch, of "\<lambda>_. True"] 3(5) show ?thesis
        by (simp add: anchored_db_def chain_rows_def)
    qed
  qed (use anch in \<open>simp_all add: anchored_db_def chain_rows_def\<close>)
  then show ?thesis by (simp add: eq)
qed

lemma upgrade_pins_events [simp]:
  "events (snd (upgrade_pins cr key a sn st h g db)) = events db"
  "meta_epoch (snd (upgrade_pins cr key a sn st h g db)) = meta_epoch db"
  by (auto simp: upgrade_pins_def Let_def split: option.splits if_splits prod.splits)

lemma bootstrap_events [simp]: "events (snd (bootstrap_epoch key c st db)) = events db"
  by (simp add: bootstrap_epoch_def)

lemma audit_step_anchored: "audit_step cr key db db' \<Longrightarrow> anchored_db db \<Longrightarrow> anchored_db db'"
proof (erule audit_stepE, goal_cases)
  case 5
  then show ?case using anchored_db_cong [of db' db] by simp
next
  case 6
  then show ?case using anchored_db_cong [of db' db] by simp
qed (simp_all add: record_tenant_checked_anchored record_read_event_anchored prune_anchored reanchor_anchored)

lemma audit_reach_inv: "audit_reach cr key db \<Longrightarrow> audit_inv cr key db \<and> anchored_db db"
proof (induction rule: audit_reach.induct)
  case reach_empty
  show ?case by (simp add: empty_db_inv) (simp add: anchored_db_def empty_db_def)
next
  case (reach_step db db')
  then show ?case by (simp add: audit_step_inv audit_step_anchored)
qed


subsection \<open>The epoch only moves forward\<close>

fun epoch_rank :: "chain_epoch \<Rightarrow> nat" where
  "epoch_rank Epoch_Legacy = 0"
| "epoch_rank Epoch_Sha7 = 1"
| "epoch_rank Epoch_Hmac256 = 2"

definition epoch_grows :: "audit_db \<Rightarrow> audit_db \<Rightarrow> bool" where
  "epoch_grows db db' \<longleftrightarrow> epoch_rank (read_epoch db) \<le> epoch_rank (read_epoch db')"

lemma epoch_grows_refl [simp]: "epoch_grows db db"
  by (simp add: epoch_grows_def)










subsection \<open>A concrete store for the witnesses\<close>

definition ok_env :: "i64 \<Rightarrow> str \<Rightarrow> sql_env" where
  "ok_env rid ts =
     \<lparr>se_begin_ok = True, se_epoch_ok = True, se_tip_ok = True, se_stamp_ok = True,
      se_insert_ok = True, se_ts_ok = True, se_head_pin_ok = True, se_genesis_pin_ok = True,
      se_body_ended = False, se_finalize = Fin_Ok, se_rollback_ok = True,
      se_uncertain_applied = False, se_new_id = rid, se_now_ts = ts\<rparr>"

definition keyed_db :: audit_db where
  "keyed_db = snd (record_tenant_checked const_crypto (Some ''k'') (ok_env 1 ''t1'') True AK_Auth
     ''api'' ''login'' AS_Ok ''d'' ''global'' (snd (bootstrap_epoch (Some ''k'') True True empty_db)))"

lemma keyed_db_reach: "audit_reach const_crypto (Some ''k'') keyed_db"
proof -
  have "audit_reach const_crypto (Some ''k'') (snd (bootstrap_epoch (Some ''k'') True True empty_db))"
    by (rule reach_step [OF reach_empty step_bootstrap])
  then show ?thesis
    unfolding keyed_db_def
    by (rule reach_step [OF _ step_record]) (simp add: fresh_id_def bootstrap_epoch_def empty_db_def)
qed

lemma keyed_db_eval:
  "read_epoch keyed_db = Epoch_Hmac256" "map d_id (events keyed_db) = [1]"
  "meta_head keyed_db \<noteq> None"
  by (simp_all add: keyed_db_def record_tenant_checked_def audit_write_body_def append_scheme_def
      bootstrap_epoch_def empty_db_def ok_env_def read_epoch_def tip_row_def Let_def
      EPOCH_HMAC_def EPOCH_SHA7_def EPOCH_LEGACY_def)



subsection \<open>Properties of the audit chain\<close>






text \<open>
  C4. The checked append is atomic and says what it did.  On success the table grows by
  exactly the one row, linked to the previous tip under the store's own scheme, the head
  pin names it, the genesis pin is set when it is the first row and otherwise kept, and
  the returned id is the row's; any error other than \<^verbatim>\<open>Indeterminate\<close> means the store is
  unchanged; \<^verbatim>\<open>Indeterminate\<close> means one of the two.
\<close>

theorem record_tenant_checked_outcome:
  assumes "fresh_id env db"
    and "record_tenant_checked cr key env is_top kind actor target status detail tenant db = (r, db')"
  shows "case r of
           Inr rid \<Rightarrow> \<exists>s. current_scheme key db' = Some s \<and> rid = se_new_id env \<and>
             events db' = events db @ [appended_row cr key env s kind actor target status detail tenant db] \<and>
             meta_head db' = Some (pin_for_row cr s (last (chain_rows db'))) \<and>
             meta_genesis db' = (if events db = [] then Some (pin_for_row cr s (hd (chain_rows db')))
                                 else meta_genesis db) \<and>
             (events db \<noteq> [] \<longrightarrow> current_scheme key db = Some s) \<and> traces db' = traces db
         | Inl e \<Rightarrow> db' = db \<or>
             e = AW_Indeterminate \<and>
             (\<exists>rid. audit_write_body cr key env kind actor target status detail tenant db = Inr (rid, db'))"
  using assms(2)
proof (cases rule: record_tenant_checked_cases)
  case (written rid)
  from written(2) assms(1) show ?thesis
    unfolding written(1) sum.case
    by (rule audit_write_body_Inr) blast
qed simp_all

theorem record_tenant_checked_outcome_witness:
  "\<exists>s. current_scheme None (snd (record_tenant_checked const_crypto None (ok_env 1 ''t1'') True AK_Auth
      ''api'' ''login'' AS_Ok ''d'' ''global'' empty_db)) = Some s"
proof -
  have f: "fresh_id (ok_env 1 ''t1'') empty_db" by (simp add: fresh_id_def empty_db_def)
  obtain r db' where eq: "record_tenant_checked const_crypto None (ok_env 1 ''t1'') True AK_Auth
      ''api'' ''login'' AS_Ok ''d'' ''global'' empty_db = (r, db')" by (meson surj_pair)
  have "\<exists>rid. r = Inr rid"
    using eq by (auto simp: record_tenant_checked_def audit_write_body_def append_scheme_def empty_db_def
        ok_env_def tip_row_def Let_def)
  with record_tenant_checked_outcome [OF f eq] show ?thesis by (auto simp: eq)
qed

lemma record_tenant_events:
  assumes "fresh_id env db"
  shows "events (snd (record_tenant cr key env is_top kind actor target status detail tenant db)) = events db \<or>
    (\<exists>s. events (snd (record_tenant cr key env is_top kind actor target status detail tenant db)) =
       events db @ [appended_row cr key env s kind actor target status detail tenant db])"
proof -
  obtain r db' where eq:
    "record_tenant_checked cr key env is_top kind actor target status detail tenant db = (r, db')"
    by (meson surj_pair)
  have "events db' = events db \<or> (\<exists>s. events db' = events db @
      [appended_row cr key env s kind actor target status detail tenant db])"
    using eq
  proof (cases rule: record_tenant_checked_cases)
    case (unknown rid)
    from unknown(2) assms show ?thesis by (rule audit_write_body_Inr) blast
  next
    case (written rid)
    from written(2) assms show ?thesis by (rule audit_write_body_Inr) blast
  qed simp
  then show ?thesis by (simp add: record_tenant_def eq)
qed

lemma record_tenant_traces:
  assumes "fresh_id env db"
  shows "traces (snd (record_tenant cr key env is_top kind actor target status detail tenant db)) = traces db"
proof -
  obtain r db' where eq:
    "record_tenant_checked cr key env is_top kind actor target status detail tenant db = (r, db')"
    by (meson surj_pair)
  have "traces db' = traces db"
    using eq
  proof (cases rule: record_tenant_checked_cases)
    case (unknown rid)
    from unknown(2) assms show ?thesis by (rule audit_write_body_Inr)
  next
    case (written rid)
    from written(2) assms show ?thesis by (rule audit_write_body_Inr)
  qed simp
  then show ?thesis by (simp add: record_tenant_def eq)
qed

text \<open>
  C5. Retention pruning deletes what it says and launders nothing.  A prune of a store
  that does not verify changes nothing and returns \<^verbatim>\<open>None\<close>.  A prune that reports a
  positive count removed exactly that many rows, all with a time stamp before the cutoff,
  and kept every other row in order with all its fields but the back-reference, followed
  at most by the one row that records the prune; replay traces of deleted rows are gone.
\<close>

theorem prune_deletes_only_expired:
  assumes "fresh_id (pe_record env) db"
    and "prune_audit_retention cr key env db = (res, db')"
  shows "(\<not> verify_chain cr key True (pe_snap_ok env) db \<longrightarrow> db' = db \<and> (res = None \<or> res = Some 0)) \<and>
         (\<forall>n > 0. res = Some n \<longrightarrow>
            (\<exists>cutoff rows. pe_cutoff env = Some cutoff \<and>
               n = length (filter (\<lambda>r. d_ts r < cutoff) (events db)) \<and>
               unlinked rows = unlinked (filter (\<lambda>r. \<not> d_ts r < cutoff) (events db)) \<and>
               (events db' = rows \<or> (\<exists>new. events db' = rows @ [new] \<and> d_kind new = ''retention'')) \<and>
               traces db' = filter (\<lambda>t. fst t \<in> d_id ` set rows) (traces db)))"
proof (intro conjI allI impI)
  assume "\<not> verify_chain cr key True (pe_snap_ok env) db"
  then have "\<not> (pe_snap_ok env \<and> verified cr key db)" by (simp add: verify_chain_eq)
  with assms(2) show "db' = db" and "res = None \<or> res = Some 0"
    by (auto simp: prune_audit_retention_def Let_def verify_chain_eq split: option.splits if_splits)
next
  fix n :: nat
  assume n: "0 < n" "res = Some n"
  from prune_result [OF assms(2)] n obtain cutoff s rows where c: "pe_cutoff env = Some cutoff"
    and re: "reanchor_rows (row_link cr s) (pe_row_ok env) True None
               (filter (\<lambda>r. \<not> d_ts r < cutoff) (events db)) = Some rows"
    and len: "n = length (filter (\<lambda>r. d_ts r < cutoff) (events db))"
    and db': "db' = snd (record_event cr key (pe_record env) True AK_Retention ''system'' cutoff AS_Ok
             (''pruned:'' @ show_nat (length (filter (\<lambda>r. d_ts r < cutoff) (events db))))
             ((refresh_head_pin cr s (pe_head_pin_ok env) (pe_genesis_pin_ok env)
                 (db\<lparr>events := rows\<rparr>))\<lparr>traces := filter (\<lambda>t. fst t \<in> d_id ` set rows) (traces db)\<rparr>))"
    by auto
  let ?d = "(refresh_head_pin cr s (pe_head_pin_ok env) (pe_genesis_pin_ok env)
                 (db\<lparr>events := rows\<rparr>))\<lparr>traces := filter (\<lambda>t. fst t \<in> d_id ` set rows) (traces db)\<rparr>"
  have "set (map d_id rows) \<subseteq> set (map d_id (events db))"
    unfolding unlinked_ids [OF reanchor_rows_unlinked [OF re]] by auto
  then have fresh: "fresh_id (pe_record env) ?d"
    by (intro fresh_id_subset [OF _ assms(1)]) simp
  from record_tenant_events [OF fresh, of cr key True AK_Retention "''system''" cutoff AS_Ok
      "''pruned:'' @ show_nat (length (filter (\<lambda>r. d_ts r < cutoff) (events db)))" DEFAULT_TENANT]
  have ev: "events db' = rows \<or> (\<exists>new. events db' = rows @ [new] \<and> d_kind new = ''retention'')"
    unfolding db' record_event_def by (auto simp: appended_row_def)
  have tr: "traces db' = filter (\<lambda>t. fst t \<in> d_id ` set rows) (traces db)"
    unfolding db' record_event_def using record_tenant_traces [OF fresh] by simp
  from c len reanchor_rows_unlinked [OF re] ev tr show "\<exists>cutoff rows. pe_cutoff env = Some cutoff \<and>
               n = length (filter (\<lambda>r. d_ts r < cutoff) (events db)) \<and>
               unlinked rows = unlinked (filter (\<lambda>r. \<not> d_ts r < cutoff) (events db)) \<and>
               (events db' = rows \<or> (\<exists>new. events db' = rows @ [new] \<and> d_kind new = ''retention'')) \<and>
               traces db' = filter (\<lambda>t. fst t \<in> d_id ` set rows) (traces db)"
    by blast
qed


definition two_db :: audit_db where
  "two_db = snd (record_tenant_checked const_crypto None (ok_env 2 ''2024'') True AK_Auth
     ''api'' ''b'' AS_Ok ''d'' ''global'' (snd (record_tenant_checked const_crypto None (ok_env 1 ''2020'') True AK_Auth
     ''api'' ''a'' AS_Ok ''d'' ''global'' empty_db)))"

lemmas audit_eval = record_tenant_checked_def audit_write_body_def append_scheme_def empty_db_def
  ok_env_def read_epoch_def current_scheme_def tip_row_def first_row_def Let_def map_full_row_def
  EPOCH_HMAC_def EPOCH_SHA7_def EPOCH_LEGACY_def chain_link_sha7_def audit_hash_def

lemma two_db_reach: "audit_reach const_crypto None two_db"
proof -
  let ?d = "snd (record_tenant_checked const_crypto None (ok_env 1 ''2020'') True AK_Auth
     ''api'' ''a'' AS_Ok ''d'' ''global'' empty_db)"
  have "audit_reach const_crypto None ?d"
    by (rule reach_step [OF reach_empty step_record]) (simp add: fresh_id_def empty_db_def)
  then show ?thesis
    unfolding two_db_def
    by (rule reach_step [OF _ step_record]) (simp add: fresh_id_def audit_eval)
qed

lemma two_db_eval:
  "map d_id (events two_db) = [1, 2]" "map d_ts (events two_db) = [''2020'', ''2024'']"
  "meta_epoch two_db = Some EPOCH_SHA7" "traces two_db = []"
  by (simp_all add: two_db_def audit_eval)

definition prune_demo :: "bool \<Rightarrow> prune_env" where
  "prune_demo genesis_ok = \<lparr>pe_cutoff = Some ''2022'', pe_count_ok = True, pe_snap_ok = True, pe_begin_ok = True,
     pe_delete_ok = True, pe_select_ok = True, pe_row_ok = (\<lambda>_. True), pe_head_pin_ok = True,
     pe_genesis_pin_ok = genesis_ok, pe_traces_ok = True, pe_commit_ok = True, pe_record = ok_env 3 ''2025''\<rparr>"

lemma two_db_verified: "verified const_crypto None two_db"
  using audit_reach_inv [OF two_db_reach] by (simp add: audit_inv_def)

lemma two_db_fresh: "fresh_id (ok_env 3 ''2025'') two_db"
proof -
  have "\<forall>i \<in> set (map d_id (events two_db)). i < 3"
    unfolding two_db_eval(1) by simp
  then show ?thesis by (simp add: fresh_id_def ok_env_def)
qed

lemma reanchor_rows_total: "\<exists>rows. reanchor_rows L (\<lambda>_. True) f prev rs = Some rows"
  by (induction rs arbitrary: f prev) (auto simp: Let_def split: if_splits)

lemma expired_count: "length (filter (\<lambda>r. d_ts r < c) rs) = length (filter (\<lambda>t. t < c) (map d_ts rs))"
  by (simp add: filter_map comp_def)

lemma prune_demo_result: "fst (prune_audit_retention const_crypto None (prune_demo g) two_db) = Some 1"
proof -
  have len: "length (filter (\<lambda>r. d_ts r < ''2022'') (events two_db)) = 1"
    unfolding expired_count two_db_eval(2) by (simp add: less_char_def)
  have sch: "current_scheme None two_db = Some Scheme_Sha7"
    using two_db_eval(3) by (simp add: current_scheme_def read_epoch_def EPOCH_SHA7_def EPOCH_HMAC_def)
  obtain rows where "reanchor_rows (row_link const_crypto Scheme_Sha7) (\<lambda>_. True) True None
      (filter (\<lambda>r. \<not> d_ts r < ''2022'') (events two_db)) = Some rows"
    using reanchor_rows_total by blast
  then show ?thesis
    using two_db_verified
    by (simp add: prune_audit_retention_def prune_demo_def len sch verify_chain_eq Let_def del: row_link.simps)
qed

theorem prune_deletes_only_expired_witness:
  "fst (prune_audit_retention const_crypto None (prune_demo True) two_db) = Some 1 \<and>
   traces (snd (prune_audit_retention const_crypto None (prune_demo True) two_db)) = []"
proof -
  obtain res db' where eq: "prune_audit_retention const_crypto None (prune_demo True) two_db = (res, db')"
    by (meson surj_pair)
  have res: "res = Some 1" using prune_demo_result [of True] by (simp add: eq)
  have "fresh_id (pe_record (prune_demo True)) two_db"
    using two_db_fresh by (simp add: prune_demo_def)
  from prune_deletes_only_expired [OF this eq] res have "\<exists>rows :: db_row list.
     traces db' = filter (\<lambda>t. fst t \<in> d_id ` set rows) (traces two_db)"
    by (metis zero_less_one)
  then show ?thesis using res by (simp add: eq two_db_eval)
qed






text \<open>
  C7. A keyed chain without its key fails closed: nothing verifies, nothing is appended
  (the refusal is \<^verbatim>\<open>Key\<close> once the transaction has begun and the tip is readable), no head
  is attested, nothing is pruned, re-anchored or upgraded, and the store stays as it is.
\<close>

theorem keyless_fails_closed:
  assumes "meta_epoch db = Some EPOCH_HMAC"
  shows "\<not> verify_chain cr None autocommit snap db \<and> chain_head cr None db = None \<and>
         (se_begin_ok env \<and> se_epoch_ok env \<and> se_tip_ok env \<and> \<not> se_body_ended env \<and> se_rollback_ok env \<longrightarrow>
            record_tenant_checked cr None env is_top kind actor target status detail tenant db = (Inl AW_Key, db)) \<and>
         snd (record_tenant_checked cr None env is_top kind actor target status detail tenant db) = db \<and>
         fst (record_tenant cr None env is_top kind actor target status detail tenant db) = None \<and>
         snd (prune_audit_retention cr None penv db) = db \<and>
         reanchor_to_hmac cr None renv db = (Inl RA_KeyUnavailable, db) \<and>
         snd (upgrade_pins cr None autocommit snap st h g db) = db"
proof -
  have sch: "current_scheme None db = None"
    using assms by (simp add: current_scheme_def read_epoch_def)
  have body: "\<exists>e. audit_write_body cr None env kind actor target status detail tenant db = Inl e"
    and key: "se_epoch_ok env \<Longrightarrow> se_tip_ok env \<Longrightarrow>
      audit_write_body cr None env kind actor target status detail tenant db = Inl AW_Key"
    using assms by (simp_all add: audit_write_body_def append_scheme_def Let_def
        EPOCH_HMAC_def EPOCH_LEGACY_def EPOCH_SHA7_def)
  have rec: "snd (record_tenant_checked cr None env is_top kind actor target status detail tenant db) = db"
    "fst (record_tenant cr None env is_top kind actor target status detail tenant db) = None"
    using body by (auto simp: record_tenant_checked_def record_tenant_def)
  have "\<not> verify_chain cr None autocommit snap db"
    by (simp add: verify_chain_eq verified_def verify_snapshot_iff sch)
  moreover have "snd (prune_audit_retention cr None penv db) = db"
    by (simp add: prune_audit_retention_def sch Let_def split: option.splits)
  ultimately show ?thesis
    using rec key
    by (auto simp: chain_head_def sch reanchor_to_hmac_def upgrade_pins_def record_tenant_checked_def)
qed

theorem keyless_fails_closed_witness:
  "meta_epoch (empty_db\<lparr>meta_epoch := Some EPOCH_HMAC\<rparr>) = Some EPOCH_HMAC \<and>
   chain_head const_crypto None (empty_db\<lparr>meta_epoch := Some EPOCH_HMAC\<rparr>) = None"
  using keyless_fails_closed [of "empty_db\<lparr>meta_epoch := Some EPOCH_HMAC\<rparr>" const_crypto]
  by (auto simp: empty_db_def)

text \<open>
  The pin upgrade repairs old stores.  A non-empty chain whose links are sound (the
  walk passes without demanding pin MACs) verifies in full after \<^verbatim>\<open>upgrade_pins\<close>, provided
  its writes land and, in the keyed epoch, the head pin exists and every pin that already
  carries a MAC carries the right one.
\<close>

lemma upgrade_pins_repairs:
  assumes "current_scheme key db = Some s" and "events db \<noteq> []"
    and "verify_chain_inner cr key autocommit snap db False"
    and "\<forall>k. s = Scheme_Hmac k \<longrightarrow> meta_head db \<noteq> None \<and>
       (\<forall>p. meta_head db = Some p \<or> meta_genesis db = Some p \<longrightarrow>
            pin_mac_field p = None \<or> mac_is_valid cr p k)"
  shows "verify_chain cr key autocommit snap (snd (upgrade_pins cr key autocommit snap True True True db))"
proof -
  from assms(3) have "verify_chain_in_snapshot cr key db False" and sn: "autocommit \<longrightarrow> snap"
    by (auto simp: verify_chain_inner_def split: if_splits)
  then show ?thesis
    using upgrade_pins_verifies [OF assms(1,2)] assms(4) by (simp add: verify_chain_eq)
qed

lemma keyed_db_nonempty: "events keyed_db \<noteq> []"
  using keyed_db_eval(2) by auto

lemma upgrade_pins_repairs_witness:
  "verify_chain const_crypto (Some ''k'') True True
     (snd (upgrade_pins const_crypto (Some ''k'') True True True True True (keyed_db\<lparr>meta_genesis := None\<rparr>)))"
proof (rule upgrade_pins_repairs)
  have v: "verified const_crypto (Some ''k'') keyed_db"
    using audit_reach_inv [OF keyed_db_reach] by (simp add: audit_inv_def)
  show sch: "current_scheme (Some ''k'') (keyed_db\<lparr>meta_genesis := None\<rparr>) = Some (Scheme_Hmac ''k'')"
    using keyed_db_eval(1) unfolding scheme_update by (simp add: current_scheme_def)
  show "events (keyed_db\<lparr>meta_genesis := None\<rparr>) \<noteq> []"
    using keyed_db_nonempty by simp
  show "verify_chain_inner const_crypto (Some ''k'') True True (keyed_db\<lparr>meta_genesis := None\<rparr>) False"
    using v by (auto simp: verify_chain_inner_def verified_def verify_snapshot_iff)
  from verified_hmac [OF v keyed_db_eval(1) keyed_db_nonempty] obtain h
    where "meta_head keyed_db = Some h" "mac_is_valid const_crypto h ''k''" by blast
  then show "\<forall>k. Scheme_Hmac ''k'' = Scheme_Hmac k \<longrightarrow> meta_head (keyed_db\<lparr>meta_genesis := None\<rparr>) \<noteq> None \<and>
     (\<forall>p. meta_head (keyed_db\<lparr>meta_genesis := None\<rparr>) = Some p \<or>
          meta_genesis (keyed_db\<lparr>meta_genesis := None\<rparr>) = Some p \<longrightarrow>
          pin_mac_field p = None \<or> mac_is_valid const_crypto p k)"
    by auto
qed

definition downgrade_forgery :: "crypto \<Rightarrow> db_row list \<Rightarrow> audit_db" where
  "downgrade_forgery cr rows =
     refresh_head_pin cr Scheme_Legacy True True
       (empty_db\<lparr>meta_epoch := Some EPOCH_LEGACY,
                 events := (case reanchor_rows (row_link cr Scheme_Legacy) (\<lambda>_. True) True None rows of
                              None \<Rightarrow> [] | Some rs \<Rightarrow> rs)\<rparr>)"

text \<open>
  C8. The epoch cell is outside the evidence.  For any rows (with back-references) there is
  a store with those rows' contents, computed without any key, that \<^verbatim>\<open>verify_chain\<close> accepts
  in a process that has the chain key: its epoch cell says \<^verbatim>\<open>legacy\<close>, so no MAC is asked for.
  Rewriting one unprotected cell of \<^verbatim>\<open>schema_meta\<close> undoes the keyed epoch.
\<close>

theorem epoch_cell_downgrade:
  assumes "\<forall>r \<in> set rows. d_prev r \<noteq> None" and "autocommit \<longrightarrow> snap"
  shows "verify_chain cr (Some k) autocommit snap (downgrade_forgery cr rows) \<and>
         unlinked (events (downgrade_forgery cr rows)) = unlinked rows"
proof -
  obtain rs where re: "reanchor_rows (row_link cr Scheme_Legacy) (\<lambda>_. True) True None rows = Some rs"
    using reanchor_rows_total by blast
  have "null_prefix (map map_full_row rows)"
    using assms(1) by (induction rows) auto
  with re have w: "walk_ok (row_link cr Scheme_Legacy) None False (map map_full_row rs)"
    by (auto intro!: reanchor_rows_walk)
  have "current_scheme (Some k) (empty_db\<lparr>meta_epoch := Some EPOCH_LEGACY, events := rs\<rparr>) = Some Scheme_Legacy"
    by (simp add: current_scheme_def read_epoch_def EPOCH_LEGACY_def EPOCH_HMAC_def EPOCH_SHA7_def)
  from refresh_head_pin_verified [OF this, of cr] w have
    "verified cr (Some k) (downgrade_forgery cr rows)"
    by (simp add: downgrade_forgery_def re del: row_link.simps)
  then show ?thesis
    using assms(2) reanchor_rows_unlinked [OF re]
    by (simp add: verify_chain_eq downgrade_forgery_def re del: row_link.simps)
qed

theorem epoch_cell_downgrade_witness:
  "verify_chain const_crypto (Some ''k'') True True
     (downgrade_forgery const_crypto (map (\<lambda>r. r\<lparr>d_prev := Some []\<rparr>) (events two_db)))"
  using epoch_cell_downgrade [of "map (\<lambda>r. r\<lparr>d_prev := Some []\<rparr>) (events two_db)" True True] by simp



end
