(* ===== verification/Delivery_Core.thy ===== *)
theory Delivery_Core
  imports Audit_Link "HOL-Library.Product_Lexorder" "HOL-Library.Multiset"
begin

text \<open>
  The delivery loop's decision core (\<^verbatim>\<open>crates/brain-delivery-core/src/lib.rs\<close>): the
  autonomy tiers, the phase and release machines, the budget ledger, the attestation
  chain, the promotion gate, the canonical form of the attestation predicate and the
  replay comparison.  Every function of the crate is pure; so is its model.  SHA-256 is the
  field \<^const>\<open>sha256\<close> of the parameter \<open>cr\<close>.
\<close>

subsection \<open>Closed vocabularies\<close>

datatype autonomy_tier = Tier_Observe | Tier_Propose | Tier_BoundedAuto | Tier_Delegated

definition TIER_ALL :: "autonomy_tier list" where
  "TIER_ALL = [Tier_Observe, Tier_Propose, Tier_BoundedAuto, Tier_Delegated]"

fun tier_as_str :: "autonomy_tier \<Rightarrow> str" where
  "tier_as_str Tier_Observe = ''observe''"
| "tier_as_str Tier_Propose = ''propose''"
| "tier_as_str Tier_BoundedAuto = ''bounded_auto''"
| "tier_as_str Tier_Delegated = ''delegated''"

text \<open>\<^term>\<open>Inl s\<close> is \<^verbatim>\<open>Err(UnknownVocabulary(s))\<close>.\<close>

definition tier_parse :: "str \<Rightarrow> str + autonomy_tier" where
  "tier_parse s =
     (if s = ''observe'' then Inr Tier_Observe
      else if s = ''propose'' then Inr Tier_Propose
      else if s = ''bounded_auto'' then Inr Tier_BoundedAuto
      else if s = ''delegated'' then Inr Tier_Delegated
      else Inl s)"

definition is_promoting :: "autonomy_tier \<Rightarrow> bool" where
  "is_promoting t = (t = Tier_BoundedAuto \<or> t = Tier_Delegated)"

datatype trace_mode = Trace_Deterministic | Trace_Exploratory

definition TRACE_ALL :: "trace_mode list" where
  "TRACE_ALL = [Trace_Deterministic, Trace_Exploratory]"

fun trace_as_str :: "trace_mode \<Rightarrow> str" where
  "trace_as_str Trace_Deterministic = ''deterministic''"
| "trace_as_str Trace_Exploratory = ''exploratory''"

definition trace_parse :: "str \<Rightarrow> str + trace_mode" where
  "trace_parse s =
     (if s = ''deterministic'' then Inr Trace_Deterministic
      else if s = ''exploratory'' then Inr Trace_Exploratory
      else Inl s)"

fun trace_mode_for_tier :: "autonomy_tier \<Rightarrow> trace_mode" where
  "trace_mode_for_tier Tier_Observe = Trace_Exploratory"
| "trace_mode_for_tier Tier_Propose = Trace_Exploratory"
| "trace_mode_for_tier Tier_BoundedAuto = Trace_Deterministic"
| "trace_mode_for_tier Tier_Delegated = Trace_Deterministic"

datatype phase = Phase_Scope | Phase_Design | Phase_Build | Phase_Release | Phase_Operate | Phase_Done

definition PHASE_ALL :: "phase list" where
  "PHASE_ALL = [Phase_Scope, Phase_Design, Phase_Build, Phase_Release, Phase_Operate, Phase_Done]"

fun phase_as_str :: "phase \<Rightarrow> str" where
  "phase_as_str Phase_Scope = ''scope''"
| "phase_as_str Phase_Design = ''design''"
| "phase_as_str Phase_Build = ''build''"
| "phase_as_str Phase_Release = ''release''"
| "phase_as_str Phase_Operate = ''operate''"
| "phase_as_str Phase_Done = ''done''"

definition phase_parse :: "str \<Rightarrow> str + phase" where
  "phase_parse s =
     (if s = ''scope'' then Inr Phase_Scope
      else if s = ''design'' then Inr Phase_Design
      else if s = ''build'' then Inr Phase_Build
      else if s = ''release'' then Inr Phase_Release
      else if s = ''operate'' then Inr Phase_Operate
      else if s = ''done'' then Inr Phase_Done
      else Inl s)"

definition phase_release :: "phase \<Rightarrow> bool" where
  "phase_release p = (p = Phase_Release)"

fun is_legal_phase_transition :: "phase \<Rightarrow> phase \<Rightarrow> bool" where
  "is_legal_phase_transition Phase_Scope Phase_Design = True"
| "is_legal_phase_transition Phase_Design Phase_Build = True"
| "is_legal_phase_transition Phase_Build Phase_Release = True"
| "is_legal_phase_transition Phase_Release Phase_Operate = True"
| "is_legal_phase_transition Phase_Operate Phase_Done = True"
| "is_legal_phase_transition _ _ = False"

definition terminal_phase :: phase where
  "terminal_phase = Phase_Done"

datatype budget_kind = Bud_Tokens | Bud_ToolCalls | Bud_Files | Bud_Minutes | Bud_BlastRadius

definition BUDGET_ALL :: "budget_kind list" where
  "BUDGET_ALL = [Bud_Tokens, Bud_ToolCalls, Bud_Files, Bud_Minutes, Bud_BlastRadius]"

fun budget_as_str :: "budget_kind \<Rightarrow> str" where
  "budget_as_str Bud_Tokens = ''tokens''"
| "budget_as_str Bud_ToolCalls = ''tool_calls''"
| "budget_as_str Bud_Files = ''files''"
| "budget_as_str Bud_Minutes = ''minutes''"
| "budget_as_str Bud_BlastRadius = ''blast_radius''"

definition budget_parse :: "str \<Rightarrow> str + budget_kind" where
  "budget_parse s =
     (if s = ''tokens'' then Inr Bud_Tokens
      else if s = ''tool_calls'' then Inr Bud_ToolCalls
      else if s = ''files'' then Inr Bud_Files
      else if s = ''minutes'' then Inr Bud_Minutes
      else if s = ''blast_radius'' then Inr Bud_BlastRadius
      else Inl s)"

fun budget_index :: "budget_kind \<Rightarrow> nat" where
  "budget_index Bud_Tokens = 0"
| "budget_index Bud_ToolCalls = 1"
| "budget_index Bud_Files = 2"
| "budget_index Bud_Minutes = 3"
| "budget_index Bud_BlastRadius = 4"

definition is_enforced :: "budget_kind \<Rightarrow> bool" where
  "is_enforced k = (k \<noteq> Bud_BlastRadius)"

subsection \<open>The budget ledger\<close>

record budget =
  bud_kind :: budget_kind
  bud_ceiling :: u64
  bud_spent :: u64

definition budget_new :: "budget_kind \<Rightarrow> u64 \<Rightarrow> budget" where
  "budget_new k c = \<lparr>bud_kind = k, bud_ceiling = c, bud_spent = 0\<rparr>"

definition budget_spend :: "budget \<Rightarrow> u64 \<Rightarrow> budget" where
  "budget_spend b amount = b\<lparr>bud_spent := sat_add (bud_spent b) amount\<rparr>"

definition is_exhausted :: "budget \<Rightarrow> bool" where
  "is_exhausted b = (bud_spent b \<ge> bud_ceiling b)"

definition budget_has_headroom :: "budget \<Rightarrow> bool" where
  "budget_has_headroom b = (\<not> is_exhausted b)"

record ceilings =
  ceil_tokens :: u64
  ceil_tool_calls :: u64
  ceil_files :: u64
  ceil_minutes :: u64
  ceil_blast_radius :: u64

text \<open>\<^verbatim>\<open>BudgetLedger\<close> holds \<^verbatim>\<open>[Budget; 5]\<close>; an operation indexes it by \<^const>\<open>budget_index\<close>.\<close>

type_synonym budget_ledger = "budget list"

definition ledger_new :: "ceilings \<Rightarrow> budget_ledger" where
  "ledger_new c =
     [budget_new Bud_Tokens (ceil_tokens c), budget_new Bud_ToolCalls (ceil_tool_calls c),
      budget_new Bud_Files (ceil_files c), budget_new Bud_Minutes (ceil_minutes c),
      budget_new Bud_BlastRadius (ceil_blast_radius c)]"

definition ledger_budget :: "budget_ledger \<Rightarrow> budget_kind \<Rightarrow> budget" where
  "ledger_budget l k = l ! budget_index k"

definition ledger_spend :: "budget_ledger \<Rightarrow> budget_kind \<Rightarrow> u64 \<Rightarrow> budget_ledger" where
  "ledger_spend l k amount = l[budget_index k := budget_spend (l ! budget_index k) amount]"

definition ledger_exhausted :: "budget_ledger \<Rightarrow> budget_kind list" where
  "ledger_exhausted l = filter (\<lambda>k. is_enforced k \<and> is_exhausted (ledger_budget l k)) BUDGET_ALL"

definition ledger_has_headroom :: "budget_ledger \<Rightarrow> bool" where
  "ledger_has_headroom l = (ledger_exhausted l = [])"

definition ledger_default :: budget_ledger where
  "ledger_default = ledger_new \<lparr>ceil_tokens = 0, ceil_tool_calls = 0, ceil_files = 0,
     ceil_minutes = 0, ceil_blast_radius = 0\<rparr>"

subsection \<open>Attestations and approvals\<close>

definition PREDICATE_TYPE :: str where
  "PREDICATE_TYPE = ''urn:brain:attest:delivery:v1''"

definition PREDICATE_DIGEST_DOMAIN :: str where
  "PREDICATE_DIGEST_DOMAIN = ''urn:brain:attest:delivery:v1'' @ [char_of (0 :: nat)]"

definition RECORD_DIGEST_DOMAIN :: str where
  "RECORD_DIGEST_DOMAIN = ''urn:brain:attest:delivery:record:v1'' @ [char_of (0 :: nat)]"

record attestation =
  att_subject_name :: str
  att_subject_digest :: str
  att_predicate_digest :: str
  att_predicate_type :: str
  att_policy_digest :: str
  att_signer_did :: str
  att_parent_digest :: str

definition attestation_root :: "str \<Rightarrow> str \<Rightarrow> str \<Rightarrow> str \<Rightarrow> str \<Rightarrow> attestation" where
  "attestation_root subject_name subject_digest predicate_digest policy_digest signer_did =
     \<lparr>att_subject_name = subject_name, att_subject_digest = subject_digest,
      att_predicate_digest = predicate_digest, att_predicate_type = PREDICATE_TYPE,
      att_policy_digest = policy_digest, att_signer_did = signer_did, att_parent_digest = []\<rparr>"

definition record_message :: "attestation \<Rightarrow> str" where
  "record_message a =
     RECORD_DIGEST_DOMAIN @ ''|'' @ att_subject_name a @ ''|'' @ att_subject_digest a @ ''|'' @
     att_predicate_digest a @ ''|'' @ att_predicate_type a @ ''|'' @ att_policy_digest a @ ''|'' @
     att_signer_did a @ ''|'' @ att_parent_digest a"

definition record_digest :: "crypto \<Rightarrow> attestation \<Rightarrow> str" where
  "record_digest cr a = hex_encode (sha256 cr (record_message a))"

definition attestation_child_of :: "crypto \<Rightarrow> attestation \<Rightarrow> str \<Rightarrow> str \<Rightarrow> str \<Rightarrow> attestation" where
  "attestation_child_of cr parent subject_name predicate_digest signer_did =
     \<lparr>att_subject_name = subject_name, att_subject_digest = att_subject_digest parent,
      att_predicate_digest = predicate_digest, att_predicate_type = att_predicate_type parent,
      att_policy_digest = att_policy_digest parent, att_signer_did = signer_did,
      att_parent_digest = record_digest cr parent\<rparr>"

definition is_complete :: "attestation \<Rightarrow> bool" where
  "is_complete a =
     (att_subject_name a \<noteq> [] \<and> att_subject_digest a \<noteq> [] \<and> att_predicate_digest a \<noteq> [] \<and>
      att_predicate_type a \<noteq> [] \<and> att_policy_digest a \<noteq> [] \<and> att_signer_did a \<noteq> [])"

record approval =
  app_subject_digest :: str
  app_principal_did :: str
  app_scope :: str
  app_expires_at_epoch :: u64

definition approval_binds :: "approval \<Rightarrow> str \<Rightarrow> bool" where
  "approval_binds a subject_digest =
     (app_subject_digest a \<noteq> [] \<and> app_subject_digest a = subject_digest)"

definition approval_is_current :: "approval \<Rightarrow> str \<Rightarrow> u64 \<Rightarrow> bool" where
  "approval_is_current a subject_digest now_epoch =
     (approval_binds a subject_digest \<and> now_epoch < app_expires_at_epoch a)"

subsection \<open>The promotion gate\<close>

datatype deny_reason =
    AttestationChainBroken | PolicyDigestMismatch | ApprovalMissing | ApprovalExpired
  | ApprovalSubjectMismatch | BudgetExhausted | TierNotPermitted

definition DENY_ALL :: "deny_reason list" where
  "DENY_ALL = [AttestationChainBroken, PolicyDigestMismatch, ApprovalMissing, ApprovalExpired,
     ApprovalSubjectMismatch, BudgetExhausted, TierNotPermitted]"

fun deny_as_str :: "deny_reason \<Rightarrow> str" where
  "deny_as_str AttestationChainBroken = ''attestation_chain_broken''"
| "deny_as_str PolicyDigestMismatch = ''policy_digest_mismatch''"
| "deny_as_str ApprovalMissing = ''approval_missing''"
| "deny_as_str ApprovalExpired = ''approval_expired''"
| "deny_as_str ApprovalSubjectMismatch = ''approval_subject_mismatch''"
| "deny_as_str BudgetExhausted = ''budget_exhausted''"
| "deny_as_str TierNotPermitted = ''tier_not_permitted''"

datatype decision = Dec_Allow | Dec_Prompt | Dec_Deny deny_reason

record promotion_request =
  pr_chain :: "attestation list"
  pr_policy_digest :: str
  pr_live_subject_digest :: str
  pr_approval :: "approval option"
  pr_budgets :: budget_ledger
  pr_tier :: autonomy_tier
  pr_trace_mode :: trace_mode
  pr_now_epoch :: u64

datatype chain_defect_kind =
    CD_Empty | CD_RootHasParent | CD_SubjectMissing | CD_SubjectMoved | CD_IncompleteLink
  | CD_SubjectDisagrees | CD_PredicateTypeDisagrees | CD_BrokenLink

fun chain_defect_as_str :: "chain_defect_kind \<Rightarrow> str" where
  "chain_defect_as_str CD_Empty = ''empty''"
| "chain_defect_as_str CD_RootHasParent = ''root_has_parent''"
| "chain_defect_as_str CD_SubjectMissing = ''subject_missing''"
| "chain_defect_as_str CD_SubjectMoved = ''subject_moved''"
| "chain_defect_as_str CD_IncompleteLink = ''incomplete_link''"
| "chain_defect_as_str CD_SubjectDisagrees = ''subject_disagrees''"
| "chain_defect_as_str CD_PredicateTypeDisagrees = ''predicate_type_disagrees''"
| "chain_defect_as_str CD_BrokenLink = ''broken_link''"

fun links_defect :: "attestation \<Rightarrow> attestation list \<Rightarrow> chain_defect_kind option" where
  "links_defect root [] = None"
| "links_defect root (link # rest) =
     (if \<not> is_complete link then Some CD_IncompleteLink
      else if att_subject_digest link \<noteq> att_subject_digest root then Some CD_SubjectDisagrees
      else if att_predicate_type link \<noteq> att_predicate_type root then Some CD_PredicateTypeDisagrees
      else links_defect root rest)"

fun windows_defect :: "crypto \<Rightarrow> attestation list \<Rightarrow> chain_defect_kind option" where
  "windows_defect cr (a # b # rest) =
     (if att_parent_digest b \<noteq> record_digest cr a then Some CD_BrokenLink
      else windows_defect cr (b # rest))"
| "windows_defect cr _ = None"

definition chain_defect :: "crypto \<Rightarrow> promotion_request \<Rightarrow> chain_defect_kind option" where
  "chain_defect cr req =
     (case pr_chain req of
        [] \<Rightarrow> Some CD_Empty
      | root # _ \<Rightarrow>
          if att_parent_digest root \<noteq> [] then Some CD_RootHasParent
          else if att_subject_digest root = [] then Some CD_SubjectMissing
          else if att_subject_digest root \<noteq> pr_live_subject_digest req then Some CD_SubjectMoved
          else case links_defect root (pr_chain req) of
                 Some d \<Rightarrow> Some d
               | None \<Rightarrow> windows_defect cr (pr_chain req))"

definition policy_defect :: "promotion_request \<Rightarrow> bool" where
  "policy_defect req =
     (if pr_policy_digest req = [] then True
      else list_ex (\<lambda>link. att_policy_digest link \<noteq> pr_policy_digest req) (pr_chain req))"

definition approval_reasons :: "promotion_request \<Rightarrow> deny_reason list" where
  "approval_reasons req =
     (case pr_approval req of
        None \<Rightarrow> [ApprovalMissing]
      | Some a \<Rightarrow>
          if \<not> approval_binds a (pr_live_subject_digest req) then [ApprovalSubjectMismatch]
          else if \<not> approval_is_current a (pr_live_subject_digest req) (pr_now_epoch req)
          then [ApprovalExpired]
          else [])"

definition deny_reasons :: "crypto \<Rightarrow> promotion_request \<Rightarrow> deny_reason list" where
  "deny_reasons cr req =
     (if chain_defect cr req \<noteq> None then [AttestationChainBroken] else []) @
     (if policy_defect req then [PolicyDigestMismatch] else []) @
     approval_reasons req @
     (if \<not> ledger_has_headroom (pr_budgets req) then [BudgetExhausted] else []) @
     (if \<not> is_promoting (pr_tier req) then [TierNotPermitted] else [])"

definition promote :: "crypto \<Rightarrow> promotion_request \<Rightarrow> decision" where
  "promote cr req =
     (case deny_reasons cr req of
        reason # _ \<Rightarrow> Dec_Deny reason
      | [] \<Rightarrow> if pr_tier req = Tier_Delegated then Dec_Prompt else Dec_Allow)"

subsection \<open>The attestation predicate and its canonical bytes\<close>

record attestation_predicate =
  pd_run_ref :: str
  pd_subject_name :: str
  pd_subject_digest :: str
  pd_model_ref :: str
  pd_model_digest :: str
  pd_plan_digest :: str
  pd_policy_digest :: str
  pd_tool_call_digests :: "str list"
  pd_gate_verdicts :: "(str \<times> str) list"
  pd_approval_ref :: str
  pd_authority_receipts :: "(str \<times> str) list"
  pd_budget_spend :: "(budget_kind \<times> u64) list"
  pd_tier :: autonomy_tier

definition predicate_new :: "str \<Rightarrow> str \<Rightarrow> str \<Rightarrow> autonomy_tier \<Rightarrow> attestation_predicate" where
  "predicate_new run_ref subject_name subject_digest tier =
     \<lparr>pd_run_ref = run_ref, pd_subject_name = subject_name, pd_subject_digest = subject_digest,
      pd_model_ref = [], pd_model_digest = [], pd_plan_digest = [], pd_policy_digest = [],
      pd_tool_call_digests = [], pd_gate_verdicts = [], pd_approval_ref = [],
      pd_authority_receipts = [], pd_budget_spend = [], pd_tier = tier\<rparr>"

definition spend_key :: "budget_kind \<times> u64 \<Rightarrow> nat \<times> u64" where
  "spend_key e = (budget_index (fst e), snd e)"

definition normalized :: "attestation_predicate \<Rightarrow> attestation_predicate" where
  "normalized p = p\<lparr>pd_gate_verdicts := sort (pd_gate_verdicts p),
     pd_authority_receipts := sort (pd_authority_receipts p),
     pd_budget_spend := sort_key spend_key (pd_budget_spend p)\<rparr>"

datatype canonical_json =
    CJ_Str str | CJ_Uint u64 | CJ_List "canonical_json list" | CJ_Obj "(str \<times> canonical_json) list"

text \<open>
  \<^verbatim>\<open>write_json_string\<close> escapes only ASCII characters, each one byte in UTF-8, and copies every
  other character's bytes; over the bytes of the string it is the map below.
\<close>

definition quote :: char where
  "quote = CHR 0x22"

definition escape_byte :: "char \<Rightarrow> str" where
  "escape_byte c =
     (if c = CHR 0x22 then [CHR 0x5C, CHR 0x22]
      else if c = CHR 0x5C then [CHR 0x5C, CHR 0x5C]
      else if c = CHR 0x08 then [CHR 0x5C, CHR ''b'']
      else if c = CHR 0x09 then [CHR 0x5C, CHR ''t'']
      else if c = CHR 0x0A then [CHR 0x5C, CHR ''n'']
      else if c = CHR 0x0C then [CHR 0x5C, CHR ''f'']
      else if c = CHR 0x0D then [CHR 0x5C, CHR ''r'']
      else if (of_char c :: nat) < 32
      then [CHR 0x5C, CHR ''u'', CHR ''0'', CHR ''0'', hex_digit (of_char c div 16), hex_digit (of_char c mod 16)]
      else [c])"

definition write_json_string :: "str \<Rightarrow> str" where
  "write_json_string s = [quote] @ concat (map escape_byte s) @ [quote]"

text \<open>
  \<^verbatim>\<open>CanonicalJson::write\<close> orders an object's keys by UTF-16 code units.  The keys of this crate
  are ASCII literals, on which that order is the byte order of \<^typ>\<open>string\<close>.
\<close>

fun sep_concat :: "str \<Rightarrow> str list \<Rightarrow> str" where
  "sep_concat sep [] = []"
| "sep_concat sep [x] = x"
| "sep_concat sep (x # y # xs) = x @ sep @ sep_concat sep (y # xs)"

fun cj_write :: "canonical_json \<Rightarrow> str" where
  "cj_write (CJ_Str s) = write_json_string s"
| "cj_write (CJ_Uint n) = show_nat (unat n)"
| "cj_write (CJ_List items) = ''['' @ sep_concat '','' (map cj_write items) @ '']''"
| "cj_write (CJ_Obj entries) =
     ''{'' @ sep_concat '','' (map snd (sort_key fst
        (map (\<lambda>(k, v). (k, write_json_string k @ '':'' @ cj_write v)) entries))) @ ''}''"

definition cj_pair :: "str \<times> str \<Rightarrow> canonical_json" where
  "cj_pair p = CJ_List [CJ_Str (fst p), CJ_Str (snd p)]"

definition cj_spend :: "budget_kind \<times> u64 \<Rightarrow> canonical_json" where
  "cj_spend p = CJ_List [CJ_Str (budget_as_str (fst p)), CJ_Uint (snd p)]"

definition predicate_json :: "attestation_predicate \<Rightarrow> canonical_json" where
  "predicate_json p = CJ_Obj
     [(''approval_ref'', CJ_Str (pd_approval_ref p)),
      (''authority_receipts'', CJ_List (map cj_pair (pd_authority_receipts p))),
      (''budget_spend'', CJ_List (map cj_spend (pd_budget_spend p))),
      (''gate_verdicts'', CJ_List (map cj_pair (pd_gate_verdicts p))),
      (''model_digest'', CJ_Str (pd_model_digest p)),
      (''model_ref'', CJ_Str (pd_model_ref p)),
      (''plan_digest'', CJ_Str (pd_plan_digest p)),
      (''policy_digest'', CJ_Str (pd_policy_digest p)),
      (''run_ref'', CJ_Str (pd_run_ref p)),
      (''subject_digest'', CJ_Str (pd_subject_digest p)),
      (''subject_name'', CJ_Str (pd_subject_name p)),
      (''tier'', CJ_Str (tier_as_str (pd_tier p))),
      (''tool_call_digests'', CJ_List (map CJ_Str (pd_tool_call_digests p)))]"

definition canonical_predicate_bytes :: "attestation_predicate \<Rightarrow> str" where
  "canonical_predicate_bytes p = cj_write (predicate_json (normalized p))"

definition predicate_digest :: "crypto \<Rightarrow> attestation_predicate \<Rightarrow> str" where
  "predicate_digest cr p =
     hex_encode (sha256 cr (PREDICATE_DIGEST_DOMAIN @ canonical_predicate_bytes p))"

text \<open>\<open>from_slice\<close> stands for \<^verbatim>\<open>serde_json::from_slice\<close>; \<^term>\<open>Inl e\<close> carries its message.\<close>

definition parse_canonical_predicate ::
    "(str \<Rightarrow> str + attestation_predicate) \<Rightarrow> str \<Rightarrow> str + attestation_predicate" where
  "parse_canonical_predicate from_slice bytes =
     (case from_slice bytes of
        Inl e \<Rightarrow> Inl (''delivery_predicate_malformed: '' @ e)
      | Inr p \<Rightarrow>
          if canonical_predicate_bytes p \<noteq> bytes then Inl ''delivery_predicate_not_canonical''
          else Inr p)"

subsection \<open>Replay comparison\<close>

record stage_digest =
  sd_stage :: str
  sd_input_digest :: str
  sd_output_digest :: str

datatype stage_mismatch =
    MissingRecorded | MissingRederived | StageDiffers | InputDigestDiffers | OutputDigestDiffers

record stage_diff =
  df_stage :: str
  df_recorded :: "stage_digest option"
  df_rederived :: "stage_digest option"
  df_mismatch :: stage_mismatch

record replay_diff =
  rd_compared :: nat
  rd_matched :: nat
  rd_mismatched :: nat
  rd_diffs :: "stage_diff list"

definition all_digests_match :: "replay_diff \<Rightarrow> bool" where
  "all_digests_match d = (rd_mismatched d = 0)"

definition nth_opt :: "'a list \<Rightarrow> nat \<Rightarrow> 'a option" where
  "nth_opt xs i = (if i < length xs then Some (xs ! i) else None)"

text \<open>One iteration of the loop: \<^term>\<open>None\<close> is the \<^verbatim>\<open>continue\<close> of a match.\<close>

fun stage_compare :: "stage_digest option \<Rightarrow> stage_digest option \<Rightarrow> (str \<times> stage_mismatch) option" where
  "stage_compare None (Some r) = Some (sd_stage r, MissingRecorded)"
| "stage_compare (Some l) None = Some (sd_stage l, MissingRederived)"
| "stage_compare None None = None"
| "stage_compare (Some l) (Some r) =
     (if sd_stage l \<noteq> sd_stage r then Some (sd_stage l, StageDiffers)
      else if sd_input_digest l \<noteq> sd_input_digest r then Some (sd_stage l, InputDigestDiffers)
      else if sd_output_digest l \<noteq> sd_output_digest r then Some (sd_stage l, OutputDigestDiffers)
      else None)"

fun replay_loop :: "stage_digest list \<Rightarrow> stage_digest list \<Rightarrow> nat list \<Rightarrow> nat \<Rightarrow> stage_diff list \<Rightarrow>
    nat \<times> stage_diff list" where
  "replay_loop recorded rederived [] matched diffs = (matched, diffs)"
| "replay_loop recorded rederived (i # is) matched diffs =
     (let left = nth_opt recorded i; right = nth_opt rederived i in
      case stage_compare left right of
        None \<Rightarrow>
          replay_loop recorded rederived is
            (if left = None \<and> right = None then matched else matched + 1) diffs
      | Some (stage, mismatch) \<Rightarrow>
          replay_loop recorded rederived is matched
            (diffs @ [\<lparr>df_stage = stage, df_recorded = left, df_rederived = right,
                       df_mismatch = mismatch\<rparr>]))"

definition compare_replay :: "stage_digest list \<Rightarrow> stage_digest list \<Rightarrow> replay_diff" where
  "compare_replay recorded rederived =
     (let compared = max (length recorded) (length rederived);
          (matched, diffs) = replay_loop recorded rederived [0..<compared] 0 []
      in \<lparr>rd_compared = compared, rd_matched = matched, rd_mismatched = length diffs,
          rd_diffs = diffs\<rparr>)"

subsection \<open>The release machine\<close>

datatype release_status =
    Rel_Proposed | Rel_Approved | Rel_Building | Rel_Attested | Rel_Staged | Rel_Promoted
  | Rel_Verified | Rel_RolledBack | Rel_Failed

definition RELEASE_ALL :: "release_status list" where
  "RELEASE_ALL = [Rel_Proposed, Rel_Approved, Rel_Building, Rel_Attested, Rel_Staged, Rel_Promoted,
     Rel_Verified, Rel_RolledBack, Rel_Failed]"

fun release_as_str :: "release_status \<Rightarrow> str" where
  "release_as_str Rel_Proposed = ''proposed''"
| "release_as_str Rel_Approved = ''approved''"
| "release_as_str Rel_Building = ''building''"
| "release_as_str Rel_Attested = ''attested''"
| "release_as_str Rel_Staged = ''staged''"
| "release_as_str Rel_Promoted = ''promoted''"
| "release_as_str Rel_Verified = ''verified''"
| "release_as_str Rel_RolledBack = ''rolled_back''"
| "release_as_str Rel_Failed = ''failed''"

definition release_parse :: "str \<Rightarrow> str + release_status" where
  "release_parse s =
     (if s = ''proposed'' then Inr Rel_Proposed
      else if s = ''approved'' then Inr Rel_Approved
      else if s = ''building'' then Inr Rel_Building
      else if s = ''attested'' then Inr Rel_Attested
      else if s = ''staged'' then Inr Rel_Staged
      else if s = ''promoted'' then Inr Rel_Promoted
      else if s = ''verified'' then Inr Rel_Verified
      else if s = ''rolled_back'' then Inr Rel_RolledBack
      else if s = ''failed'' then Inr Rel_Failed
      else Inl s)"

definition is_terminal :: "release_status \<Rightarrow> bool" where
  "is_terminal s = (s = Rel_RolledBack \<or> s = Rel_Failed)"

fun is_legal_release_transition :: "release_status \<Rightarrow> release_status \<Rightarrow> bool" where
  "is_legal_release_transition Rel_Proposed t = (t = Rel_Approved \<or> t = Rel_Failed)"
| "is_legal_release_transition Rel_Approved t = (t = Rel_Building \<or> t = Rel_Failed)"
| "is_legal_release_transition Rel_Building t = (t = Rel_Attested \<or> t = Rel_Failed)"
| "is_legal_release_transition Rel_Attested t = (t = Rel_Staged \<or> t = Rel_Failed)"
| "is_legal_release_transition Rel_Staged t = (t = Rel_Promoted \<or> t = Rel_Failed)"
| "is_legal_release_transition Rel_Promoted t = (t = Rel_Verified \<or> t = Rel_RolledBack)"
| "is_legal_release_transition Rel_Verified t = (t = Rel_RolledBack)"
| "is_legal_release_transition Rel_RolledBack t = False"
| "is_legal_release_transition Rel_Failed t = False"

end
