(* ===== verification/Delivery_Proofs.thy ===== *)
theory Delivery_Proofs
  imports Delivery_Core
begin

text \<open>
  Lemmas of the delivery core: the wire vocabularies and the two machines as instances of
  the shared interfaces, the ledger under draws, the gate's verdict spelled out, the
  canonical writer as a uniquely decodable code, and the replay comparison.
\<close>

subsection \<open>Vocabularies and derived orders\<close>

interpretation tier_words: closed_vocabulary tier_as_str "\<lambda>s. sum_to_option (tier_parse s)" TIER_ALL
proof unfold_locales
  fix x show "sum_to_option (tier_parse (tier_as_str x)) = Some x" by (cases x) (simp_all add: tier_parse_def)
next
  fix s x show "sum_to_option (tier_parse s) = Some x \<Longrightarrow> tier_as_str x = s"
    by (auto simp: tier_parse_def split: if_splits)
next
  fix x show "x \<in> set TIER_ALL" by (cases x) (simp_all add: TIER_ALL_def)
next
  show "distinct TIER_ALL" by (simp add: TIER_ALL_def)
qed

interpretation trace_words: closed_vocabulary trace_as_str "\<lambda>s. sum_to_option (trace_parse s)" TRACE_ALL
proof unfold_locales
  fix x show "sum_to_option (trace_parse (trace_as_str x)) = Some x" by (cases x) (simp_all add: trace_parse_def)
next
  fix s x show "sum_to_option (trace_parse s) = Some x \<Longrightarrow> trace_as_str x = s"
    by (auto simp: trace_parse_def split: if_splits)
next
  fix x show "x \<in> set TRACE_ALL" by (cases x) (simp_all add: TRACE_ALL_def)
next
  show "distinct TRACE_ALL" by (simp add: TRACE_ALL_def)
qed

interpretation phase_words: closed_vocabulary phase_as_str "\<lambda>s. sum_to_option (phase_parse s)" PHASE_ALL
proof unfold_locales
  fix x show "sum_to_option (phase_parse (phase_as_str x)) = Some x" by (cases x) (simp_all add: phase_parse_def)
next
  fix s x show "sum_to_option (phase_parse s) = Some x \<Longrightarrow> phase_as_str x = s"
    by (auto simp: phase_parse_def split: if_splits)
next
  fix x show "x \<in> set PHASE_ALL" by (cases x) (simp_all add: PHASE_ALL_def)
next
  show "distinct PHASE_ALL" by (simp add: PHASE_ALL_def)
qed

interpretation budget_words: closed_vocabulary budget_as_str "\<lambda>s. sum_to_option (budget_parse s)" BUDGET_ALL
proof unfold_locales
  fix x show "sum_to_option (budget_parse (budget_as_str x)) = Some x" by (cases x) (simp_all add: budget_parse_def)
next
  fix s x show "sum_to_option (budget_parse s) = Some x \<Longrightarrow> budget_as_str x = s"
    by (auto simp: budget_parse_def split: if_splits)
next
  fix x show "x \<in> set BUDGET_ALL" by (cases x) (simp_all add: BUDGET_ALL_def)
next
  show "distinct BUDGET_ALL" by (simp add: BUDGET_ALL_def)
qed

interpretation release_words: closed_vocabulary release_as_str "\<lambda>s. sum_to_option (release_parse s)" RELEASE_ALL
proof unfold_locales
  fix x show "sum_to_option (release_parse (release_as_str x)) = Some x" by (cases x) (simp_all add: release_parse_def)
next
  fix s x show "sum_to_option (release_parse s) = Some x \<Longrightarrow> release_as_str x = s"
    by (auto simp: release_parse_def split: if_splits)
next
  fix x show "x \<in> set RELEASE_ALL" by (cases x) (simp_all add: RELEASE_ALL_def)
next
  show "distinct RELEASE_ALL" by (simp add: RELEASE_ALL_def)
qed

text \<open>The derived \<^verbatim>\<open>Ord\<close> of the tiers: declaration order, narrowest first.\<close>

fun tier_rank :: "autonomy_tier \<Rightarrow> nat" where
  "tier_rank Tier_Observe = 0"
| "tier_rank Tier_Propose = 1"
| "tier_rank Tier_BoundedAuto = 2"
| "tier_rank Tier_Delegated = 3"

lemma tier_rank_inj: "tier_rank s = tier_rank t \<Longrightarrow> s = t"
  by (cases s; cases t) simp_all

instantiation autonomy_tier :: linorder
begin

definition less_eq_autonomy_tier :: "autonomy_tier \<Rightarrow> autonomy_tier \<Rightarrow> bool" where
  "less_eq_autonomy_tier s t \<longleftrightarrow> tier_rank s \<le> tier_rank t"

definition less_autonomy_tier :: "autonomy_tier \<Rightarrow> autonomy_tier \<Rightarrow> bool" where
  "less_autonomy_tier s t \<longleftrightarrow> tier_rank s < tier_rank t"

instance
  by intro_classes (auto simp: less_eq_autonomy_tier_def less_autonomy_tier_def dest: tier_rank_inj)

end

subsection \<open>The two machines\<close>

fun phase_rank :: "phase \<Rightarrow> nat" where
  "phase_rank Phase_Scope = 0"
| "phase_rank Phase_Design = 1"
| "phase_rank Phase_Build = 2"
| "phase_rank Phase_Release = 3"
| "phase_rank Phase_Operate = 4"
| "phase_rank Phase_Done = 5"

fun release_rank :: "release_status \<Rightarrow> nat" where
  "release_rank Rel_Proposed = 0"
| "release_rank Rel_Approved = 1"
| "release_rank Rel_Building = 2"
| "release_rank Rel_Attested = 3"
| "release_rank Rel_Staged = 4"
| "release_rank Rel_Promoted = 5"
| "release_rank Rel_Verified = 6"
| "release_rank Rel_RolledBack = 7"
| "release_rank Rel_Failed = 7"

lemma legal_phase_iff:
  "is_legal_phase_transition s t \<longleftrightarrow> phase_rank t = Suc (phase_rank s)"
  by (cases s; cases t) simp_all

interpretation phase_machine: climbing_machine is_legal_phase_transition phase_rank 5
proof unfold_locales
  fix s t show "is_legal_phase_transition s t \<Longrightarrow> phase_rank s < phase_rank t"
    by (simp add: legal_phase_iff)
  show "phase_rank s \<le> 5" by (cases s) simp_all
qed

interpretation release_machine: climbing_machine is_legal_release_transition release_rank 7
proof unfold_locales
  fix s t show "is_legal_release_transition s t \<Longrightarrow> release_rank s < release_rank t"
    by (cases s) auto
  show "release_rank s \<le> 7" by (cases s) simp_all
qed

lemma phase_rank_inj: "phase_rank s = phase_rank t \<Longrightarrow> s = t"
  by (cases s; cases t) simp_all

lemma legal_phase_path:
  "legal_path is_legal_phase_transition s ts \<Longrightarrow>
   map phase_rank ts = [Suc (phase_rank s)..<Suc (phase_rank s) + length ts]"
  by (induction ts arbitrary: s) (auto simp: legal_phase_iff upt_conv_Cons)

subsection \<open>The ledger\<close>

definition ledger_ok :: "budget_ledger \<Rightarrow> bool" where
  "ledger_ok l \<longleftrightarrow> map bud_kind l = BUDGET_ALL"

lemma ledger_new_ok: "ledger_ok (ledger_new c)"
  by (simp add: ledger_ok_def ledger_new_def budget_new_def BUDGET_ALL_def)

lemma ledger_ok_length: "ledger_ok l \<Longrightarrow> length l = 5"
  unfolding ledger_ok_def by (drule arg_cong [where f = length]) (simp add: BUDGET_ALL_def)

lemma budget_index_lt: "budget_index k < 5"
  by (cases k) simp_all

lemma budget_index_inj: "budget_index k = budget_index k' \<longleftrightarrow> k = k'"
  by (cases k; cases k') simp_all

lemma ledger_budget_spend:
  assumes "ledger_ok l"
  shows "ledger_budget (ledger_spend l k a) k' =
     (if k' = k then budget_spend (ledger_budget l k) a else ledger_budget l k')"
  using assms budget_index_lt [of k] ledger_ok_length [OF assms]
  by (auto simp: ledger_budget_def ledger_spend_def nth_list_update budget_index_inj)

lemma ledger_spend_ok:
  assumes "ledger_ok l"
  shows "ledger_ok (ledger_spend l k a)"
proof -
  have "map bud_kind (ledger_spend l k a) = (map bud_kind l)[budget_index k := bud_kind (l ! budget_index k)]"
    by (simp add: ledger_spend_def map_update budget_spend_def)
  also have "\<dots> = map bud_kind l"
    using budget_index_lt [of k] ledger_ok_length [OF assms] by (metis list_update_id nth_map)
  finally show ?thesis using assms by (simp add: ledger_ok_def)
qed

lemma is_exhausted_spend: "is_exhausted b \<Longrightarrow> is_exhausted (budget_spend b a)"
  using sat_add_ge [of "bud_spent b" a] by (simp add: is_exhausted_def budget_spend_def)

lemma headroom_iff: "ledger_has_headroom l \<longleftrightarrow> (\<forall>k. is_enforced k \<longrightarrow> \<not> is_exhausted (ledger_budget l k))"
  using budget_words.members_complete
  by (auto simp: ledger_has_headroom_def ledger_exhausted_def filter_empty_conv)

lemma headroom_spend: "ledger_ok l \<Longrightarrow> ledger_has_headroom (ledger_spend l k a) \<Longrightarrow> ledger_has_headroom l"
  unfolding headroom_iff by (metis is_exhausted_spend ledger_budget_spend)

definition spend_all :: "budget_ledger \<Rightarrow> (budget_kind \<times> u64) list \<Rightarrow> budget_ledger" where
  "spend_all l draws = fold (\<lambda>(k, a) l. ledger_spend l k a) draws l"

lemma spend_all_ok: "ledger_ok l \<Longrightarrow> ledger_ok (spend_all l draws)"
  by (induction draws arbitrary: l) (auto simp: spend_all_def ledger_spend_ok)

lemma spend_all_headroom: "ledger_ok l \<Longrightarrow> ledger_has_headroom (spend_all l draws) \<Longrightarrow> ledger_has_headroom l"
proof (induction draws arbitrary: l)
  case Nil
  then show ?case by (simp add: spend_all_def)
next
  case (Cons d draws)
  then have "ledger_has_headroom (ledger_spend l (fst d) (snd d))"
    by (intro Cons.IH [OF ledger_spend_ok [OF Cons.prems(1)]]) (simp add: spend_all_def split_beta)
  with Cons.prems(1) show ?case by (rule headroom_spend)
qed

lemma min_add_cap: "min (min x m + y) m = min (x + y) (m :: nat)"
  by (simp add: min_def)

text \<open>The exact counter after any sequence of draws: the true sum, capped at the word's maximum.\<close>

lemma spend_all_spent:
  "ledger_ok l \<Longrightarrow> unat (bud_spent (ledger_budget (spend_all l draws) k)) =
     min (unat (bud_spent (ledger_budget l k)) + sum_list (map (\<lambda>d. unat (snd d)) (filter (\<lambda>d. fst d = k) draws)))
         (2 ^ 64 - 1)"
proof (induction draws arbitrary: l)
  case Nil
  have "unat (bud_spent (ledger_budget l k)) < 2 ^ 64" using unsigned_less [of "bud_spent (ledger_budget l k)"] by simp
  then show ?case by (simp add: spend_all_def)
next
  case (Cons d draws)
  obtain j a where d: "d = (j, a)" by (cases d)
  have "unat (bud_spent (ledger_budget (spend_all l (d # draws)) k)) =
      unat (bud_spent (ledger_budget (spend_all (ledger_spend l j a) draws) k))"
    by (simp add: spend_all_def d)
  also have "\<dots> = min (unat (bud_spent (ledger_budget (ledger_spend l j a) k)) +
      sum_list (map (\<lambda>d. unat (snd d)) (filter (\<lambda>d. fst d = k) draws))) (2 ^ 64 - 1)"
    using Cons.prems by (intro Cons.IH ledger_spend_ok)
  finally show ?case
    using Cons.prems by (auto simp: ledger_budget_spend budget_spend_def unat_sat_add d min_add_cap add.assoc)
qed


subsection \<open>The gate\<close>

lemma links_defect_None:
  "links_defect root links = None \<longleftrightarrow>
     (\<forall>l \<in> set links. is_complete l \<and> att_subject_digest l = att_subject_digest root \<and>
        att_predicate_type l = att_predicate_type root)"
  by (induction links) auto

lemma all_nat_Suc: "(\<forall>i :: nat. P i) \<longleftrightarrow> P 0 \<and> (\<forall>i. P (Suc i))"
  by (metis not0_implies_Suc)

lemma windows_defect_None:
  "windows_defect cr chain = None \<longleftrightarrow>
     (\<forall>i. Suc i < length chain \<longrightarrow> att_parent_digest (chain ! Suc i) = record_digest cr (chain ! i))"
proof (induction cr chain rule: windows_defect.induct)
  case (1 cr a b rest)
  show ?case
  proof (cases "att_parent_digest b = record_digest cr a")
    case True
    then show ?thesis
      using 1 by (subst all_nat_Suc) simp
  next
    case False
    then show ?thesis by auto
  qed
qed auto

definition chain_sound :: "crypto \<Rightarrow> attestation list \<Rightarrow> str \<Rightarrow> bool" where
  "chain_sound cr chain subject \<longleftrightarrow>
     chain \<noteq> [] \<and> subject \<noteq> [] \<and> att_parent_digest (hd chain) = [] \<and>
     (\<forall>l \<in> set chain. is_complete l \<and> att_subject_digest l = subject \<and>
        att_predicate_type l = att_predicate_type (hd chain)) \<and>
     (\<forall>i. Suc i < length chain \<longrightarrow> att_parent_digest (chain ! Suc i) = record_digest cr (chain ! i))"

lemma chain_defect_None: "chain_defect cr req = None \<longleftrightarrow> chain_sound cr (pr_chain req) (pr_live_subject_digest req)"
proof (cases "pr_chain req")
  case Nil
  then show ?thesis by (simp add: chain_defect_def chain_sound_def)
next
  case (Cons root rest)
  have "chain_defect cr req = None \<longleftrightarrow>
      att_parent_digest root = [] \<and> att_subject_digest root \<noteq> [] \<and>
      att_subject_digest root = pr_live_subject_digest req \<and>
      links_defect root (root # rest) = None \<and> windows_defect cr (root # rest) = None"
    by (simp add: chain_defect_def Cons split: option.splits)
  then show ?thesis
    unfolding links_defect_None chain_sound_def Cons windows_defect_None [symmetric] list.sel
    using list.set_intros(1) [of root rest] by (metis list.discI)
qed

lemma approval_reasons_Nil:
  "approval_reasons req = [] \<longleftrightarrow>
     (\<exists>a. pr_approval req = Some a \<and> app_subject_digest a = pr_live_subject_digest req \<and>
          pr_live_subject_digest req \<noteq> [] \<and> pr_now_epoch req < app_expires_at_epoch a)"
  by (auto simp: approval_reasons_def approval_is_current_def approval_binds_def split: option.splits)

lemma policy_defect_iff:
  "\<not> policy_defect req \<longleftrightarrow>
     pr_policy_digest req \<noteq> [] \<and> (\<forall>l \<in> set (pr_chain req). att_policy_digest l = pr_policy_digest req)"
  by (auto simp: policy_defect_def list_ex_iff)

definition admissible :: "crypto \<Rightarrow> promotion_request \<Rightarrow> bool" where
  "admissible cr req \<longleftrightarrow>
     chain_sound cr (pr_chain req) (pr_live_subject_digest req) \<and>
     pr_policy_digest req \<noteq> [] \<and>
     (\<forall>l \<in> set (pr_chain req). att_policy_digest l = pr_policy_digest req) \<and>
     (\<exists>a. pr_approval req = Some a \<and> app_subject_digest a = pr_live_subject_digest req \<and>
          pr_now_epoch req < app_expires_at_epoch a) \<and>
     (\<forall>k. k \<noteq> Bud_BlastRadius \<longrightarrow>
          bud_spent (ledger_budget (pr_budgets req) k) < bud_ceiling (ledger_budget (pr_budgets req) k)) \<and>
     Tier_BoundedAuto \<le> pr_tier req"

lemma is_promoting_le: "is_promoting t \<longleftrightarrow> Tier_BoundedAuto \<le> t"
  by (cases t) (simp_all add: is_promoting_def less_eq_autonomy_tier_def)

lemma deny_reasons_Nil: "deny_reasons cr req = [] \<longleftrightarrow> admissible cr req"
proof -
  have "ledger_has_headroom (pr_budgets req) \<longleftrightarrow> (\<forall>k. k \<noteq> Bud_BlastRadius \<longrightarrow>
      bud_spent (ledger_budget (pr_budgets req) k) < bud_ceiling (ledger_budget (pr_budgets req) k))"
    by (simp add: headroom_iff is_enforced_def is_exhausted_def not_le)
  moreover have "deny_reasons cr req = [] \<longleftrightarrow>
      chain_defect cr req = None \<and> \<not> policy_defect req \<and> approval_reasons req = [] \<and>
      ledger_has_headroom (pr_budgets req) \<and> is_promoting (pr_tier req)"
    by (simp add: deny_reasons_def)
  ultimately show ?thesis
    unfolding chain_defect_None policy_defect_iff approval_reasons_Nil is_promoting_le admissible_def
    by (auto simp: chain_sound_def)
qed

lemma promote_eq:
  "promote cr req =
     (if admissible cr req
      then (if pr_tier req = Tier_Delegated then Dec_Prompt else Dec_Allow)
      else Dec_Deny (hd (deny_reasons cr req)))"
  using deny_reasons_Nil [of cr req] by (auto simp: promote_def split: list.splits)

subsection \<open>The record message\<close>

lemma split_at_sep:
  "xs @ c # ys = xs' @ c # ys' \<Longrightarrow> c \<notin> set xs \<Longrightarrow> c \<notin> set xs' \<Longrightarrow> xs = xs' \<and> ys = ys'"
  by (induction xs arbitrary: xs') (auto simp: Cons_eq_append_conv)

definition pipe_free :: "attestation \<Rightarrow> bool" where
  "pipe_free a \<longleftrightarrow> CHR ''|'' \<notin> set (att_subject_name a) \<union> set (att_subject_digest a) \<union>
     set (att_predicate_digest a) \<union> set (att_predicate_type a) \<union> set (att_policy_digest a) \<union>
     set (att_signer_did a)"

lemma record_message_inj:
  assumes "record_message a = record_message b" and "pipe_free a" and "pipe_free b"
  shows "a = b"
proof -
  let ?c = "CHR ''|''"
  from assms(1) have m0: "att_subject_name a @ ?c # att_subject_digest a @ ?c # att_predicate_digest a @ ?c #
      att_predicate_type a @ ?c # att_policy_digest a @ ?c # att_signer_did a @ ?c # att_parent_digest a =
      att_subject_name b @ ?c # att_subject_digest b @ ?c # att_predicate_digest b @ ?c #
      att_predicate_type b @ ?c # att_policy_digest b @ ?c # att_signer_did b @ ?c # att_parent_digest b"
    by (simp add: record_message_def)
  note pf = assms(2,3) [unfolded pipe_free_def Un_iff de_Morgan_disj]
  from split_at_sep [OF m0] pf have 1: "att_subject_name a = att_subject_name b" and m1: "att_subject_digest a @ ?c # att_predicate_digest a @ ?c #
      att_predicate_type a @ ?c # att_policy_digest a @ ?c # att_signer_did a @ ?c # att_parent_digest a =
      att_subject_digest b @ ?c # att_predicate_digest b @ ?c #
      att_predicate_type b @ ?c # att_policy_digest b @ ?c # att_signer_did b @ ?c # att_parent_digest b" by auto
  from split_at_sep [OF m1] pf have 2: "att_subject_digest a = att_subject_digest b" and m2: "att_predicate_digest a @ ?c #
      att_predicate_type a @ ?c # att_policy_digest a @ ?c # att_signer_did a @ ?c # att_parent_digest a =
      att_predicate_digest b @ ?c #
      att_predicate_type b @ ?c # att_policy_digest b @ ?c # att_signer_did b @ ?c # att_parent_digest b" by auto
  from split_at_sep [OF m2] pf have 3: "att_predicate_digest a = att_predicate_digest b" and m3:
      "att_predicate_type a @ ?c # att_policy_digest a @ ?c # att_signer_did a @ ?c # att_parent_digest a =
      att_predicate_type b @ ?c # att_policy_digest b @ ?c # att_signer_did b @ ?c # att_parent_digest b" by auto
  from split_at_sep [OF m3] pf have 4: "att_predicate_type a = att_predicate_type b" and m4:
      "att_policy_digest a @ ?c # att_signer_did a @ ?c # att_parent_digest a =
       att_policy_digest b @ ?c # att_signer_did b @ ?c # att_parent_digest b" by auto
  from split_at_sep [OF m4] pf have 5: "att_policy_digest a = att_policy_digest b" and m5:
      "att_signer_did a @ ?c # att_parent_digest a = att_signer_did b @ ?c # att_parent_digest b" by auto
  from split_at_sep [OF m5] pf have "att_signer_did a = att_signer_did b" "att_parent_digest a = att_parent_digest b"
    by auto
  with 1 2 3 4 5 show "a = b" by simp
qed

end
