(* ===== verification/Delivery_Canonical.thy ===== *)
theory Delivery_Canonical
  imports Delivery_Proofs
begin

text \<open>
  The canonical JSON writer of the delivery core is a uniquely decodable code: equal
  bytes come from equal values.  Two predicates therefore have the same canonical bytes
  exactly when they state the same facts, up to the order of the three collections that
  the form sorts.
\<close>

subsection \<open>Strings\<close>

definition hex_value :: "char \<Rightarrow> nat" where
  "hex_value c = (let n = of_char c in if n \<le> 57 then n - 48 else n - 87)"

lemma hex_value_digit:
  assumes "n < 16"
  shows "hex_value (hex_digit n) = n"
proof -
  have "list_all (\<lambda>n. hex_value (hex_digit n) = n) [0..<16]" by code_simp
  with assms show ?thesis by (simp add: list_all_iff)
qed

text \<open>The reader of one escaped byte.\<close>

fun unescape :: "str \<Rightarrow> (char \<times> str) option" where
  "unescape [] = None"
| "unescape (c # r) =
     (if c \<noteq> CHR 0x5C then Some (c, r)
      else case r of
        [] \<Rightarrow> None
      | d # t \<Rightarrow>
          if d = CHR ''b'' then Some (CHR 0x08, t)
          else if d = CHR ''t'' then Some (CHR 0x09, t)
          else if d = CHR ''n'' then Some (CHR 0x0A, t)
          else if d = CHR ''f'' then Some (CHR 0x0C, t)
          else if d = CHR ''r'' then Some (CHR 0x0D, t)
          else if d = CHR ''u''
          then (case t of _ # _ # x # y # u \<Rightarrow> Some (char_of (16 * hex_value x + hex_value y), u) | _ \<Rightarrow> None)
          else Some (d, t))"

lemma unescape_escape: "unescape (escape_byte c @ x) = Some (c, x)"
proof -
  have "(of_char c :: nat) < 32 \<Longrightarrow> of_char c div 16 < (16 :: nat)" by simp
  then show ?thesis
    by (simp add: escape_byte_def hex_value_digit)
qed

lemma escape_byte_inj: "escape_byte c @ x = escape_byte d @ y \<Longrightarrow> c = d \<and> x = y"
  by (metis unescape_escape option.inject prod.inject)

lemma escape_byte_head: "\<exists>h t. escape_byte c = h # t \<and> h \<noteq> quote"
  by (simp add: escape_byte_def quote_def)

lemma json_body_inj:
  "concat (map escape_byte s) @ quote # r = concat (map escape_byte s') @ quote # r' \<Longrightarrow> s = s' \<and> r = r'"
proof (induction s arbitrary: s')
  case Nil
  show ?case
  proof (cases s')
    case (Cons c cs)
    with Nil escape_byte_head [of c] show ?thesis by auto
  qed (use Nil in simp)
next
  case (Cons c cs)
  obtain d ds where s': "s' = d # ds"
    using Cons.prems escape_byte_head [of c] by (cases s') auto
  from Cons.prems have "c = d \<and> concat (map escape_byte cs) @ quote # r = concat (map escape_byte ds) @ quote # r'"
    unfolding s' by (intro escape_byte_inj) simp
  with Cons.IH show ?case by (simp add: s')
qed

lemma write_json_string_inj: "write_json_string s @ r = write_json_string s' @ r' \<Longrightarrow> s = s' \<and> r = r'"
  by (rule json_body_inj) (simp add: write_json_string_def)

subsection \<open>Numbers\<close>

definition ends_number :: "str \<Rightarrow> bool" where
  "ends_number r \<longleftrightarrow> r = [] \<or> \<not> is_digit_char (hd r)"

lemma takeWhile_show_nat: "ends_number r \<Longrightarrow> takeWhile is_digit_char (show_nat n @ r) = show_nat n"
  using show_nat_digits [of _ n] by (cases r) (simp_all add: ends_number_def takeWhile_append)

lemma show_nat_append_inj:
  "show_nat m @ r = show_nat n @ r' \<Longrightarrow> ends_number r \<Longrightarrow> ends_number r' \<Longrightarrow> m = n \<and> r = r'"
  by (metis takeWhile_show_nat show_nat_inj same_append_eq)

subsection \<open>Separated lists\<close>

definition code_on :: "('a \<Rightarrow> str) \<Rightarrow> 'a \<Rightarrow> 'a \<Rightarrow> bool" where
  "code_on w x y \<longleftrightarrow>
     (\<forall>r r'. w x @ r = w y @ r' \<longrightarrow> ends_number r \<longrightarrow> ends_number r' \<longrightarrow> x = y \<and> r = r')"

lemma sep_concat_Cons: "sep_concat sep (x # xs) = x @ (if xs = [] then [] else sep @ sep_concat sep xs)"
  by (cases xs) simp_all

lemma ends_number_simps [simp]:
  "ends_number (CHR '','' # r)" "ends_number (CHR '']'' # r)" "ends_number (CHR ''}'' # r)"
  by (simp_all add: ends_number_def is_digit_char_def)

lemma sep_concat_inj:
  assumes "sep_concat '','' (map w xs) @ cl # r = sep_concat '','' (map w ys) @ cl # r'"
    and "\<forall>x \<in> set xs. \<forall>y \<in> set ys. code_on w x y"
    and "\<forall>x \<in> set xs \<union> set ys. w x \<noteq> [] \<and> hd (w x) \<noteq> cl"
    and "cl = CHR '']'' \<or> cl = CHR ''}''"
  shows "xs = ys \<and> r = r'"
  using assms
proof (induction xs arbitrary: ys)
  case Nil
  then show ?case by (cases ys) (auto simp: sep_concat_Cons hd_append neq_Nil_conv)
next
  case (Cons x xs)
  note prems = Cons.prems
  obtain y ys' where ys: "ys = y # ys'"
    using prems(1,3) by (cases ys) (auto simp: sep_concat_Cons hd_append neq_Nil_conv)
  let ?t = "\<lambda>zs q. (if zs = [] then [] else '','' @ sep_concat '','' (map w zs)) @ cl # q"
  have eq: "w x @ ?t xs r = w y @ ?t ys' r'"
    using prems(1) by (simp add: ys sep_concat_Cons)
  have ends: "ends_number (?t zs q)" for zs q
    using prems(4) by auto
  have "code_on w x y" using prems(2) ys by simp
  then have "x = y \<and> ?t xs r = ?t ys' r'"
    unfolding code_on_def using eq ends [of xs r] ends [of ys' r'] by blast
  then have xy: "x = y" and t: "?t xs r = ?t ys' r'" by simp_all
  show ?case
  proof (cases "xs = [] \<or> ys' = []")
    case True
    with t prems(4) show ?thesis by (auto simp: ys xy split: if_splits)
  next
    case False
    with t have "sep_concat '','' (map w xs) @ cl # r = sep_concat '','' (map w ys') @ cl # r'" by simp
    from Cons.IH [OF this] prems show ?thesis by (simp add: ys xy)
  qed
qed

subsection \<open>Values\<close>

fun cj_wf :: "canonical_json \<Rightarrow> bool" where
  "cj_wf (CJ_Str s) = True"
| "cj_wf (CJ_Uint n) = True"
| "cj_wf (CJ_List vs) = (\<forall>v \<in> set vs. cj_wf v)"
| "cj_wf (CJ_Obj es) = (sorted (map fst es) \<and> (\<forall>e \<in> set es. cj_wf (snd e)))"

definition write_entry :: "str \<times> canonical_json \<Rightarrow> str" where
  "write_entry e = write_json_string (fst e) @ '':'' @ cj_write (snd e)"

lemma cj_write_Obj:
  assumes "sorted (map fst es)"
  shows "cj_write (CJ_Obj es) = ''{'' @ sep_concat '','' (map write_entry es) @ ''}''"
proof -
  let ?es = "map (\<lambda>(k, v). (k, write_json_string k @ '':'' @ cj_write v)) es"
  have keys: "map fst ?es = map fst es" by (simp add: comp_def case_prod_beta)
  have "sorted (map fst ?es)" unfolding keys by (rule assms)
  then have "sort_key fst ?es = ?es" by (rule sort_key_id_if_sorted)
  moreover have "map snd ?es = map write_entry es"
    by (simp add: comp_def case_prod_beta write_entry_def)
  ultimately show ?thesis by (simp only: cj_write.simps)
qed

lemma show_nat_head: "\<exists>h t. show_nat n = h # t \<and> is_digit_char h"
  by (metis list.exhaust list.set_intros(1) show_nat_digits show_nat_not_Nil)

lemma cj_write_head:
  "\<exists>h t. cj_write v = h # t \<and>
     (case v of CJ_Str _ \<Rightarrow> h = quote | CJ_Uint _ \<Rightarrow> is_digit_char h
      | CJ_List _ \<Rightarrow> h = CHR ''['' | CJ_Obj _ \<Rightarrow> h = CHR ''{'')"
  using show_nat_head by (cases v) (auto simp: write_json_string_def)


lemma code_on_string: "code_on write_json_string s s'"
  by (auto simp: code_on_def dest: write_json_string_inj)

lemma code_on_constructor:
  assumes "code_on cj_write v v' \<or> (\<forall>h t h' t'. cj_write v = h # t \<longrightarrow> cj_write v' = h' # t' \<longrightarrow> h \<noteq> h')"
  shows "code_on cj_write v v'"
  using assms cj_write_head [of v] cj_write_head [of v'] by (auto simp: code_on_def)

lemma quote_not [simp]:
  "quote \<noteq> CHR ''[''" "quote \<noteq> CHR ''{''" "quote \<noteq> CHR '']''" "quote \<noteq> CHR ''}''" "\<not> is_digit_char quote"
  "\<not> is_digit_char CHR ''[''" "\<not> is_digit_char CHR ''{''" "\<not> is_digit_char CHR '']''" "\<not> is_digit_char CHR ''}''"
  "CHR ''['' \<noteq> quote" "CHR ''{'' \<noteq> quote"
  by (simp_all add: quote_def is_digit_char_def)

lemma cj_head_not_close:
  "cj_write v \<noteq> [] \<and> hd (cj_write v) \<noteq> CHR '']'' \<and> hd (cj_write v) \<noteq> CHR ''}''"
  using cj_write_head [of v] by (cases v) auto

lemma code_on_list:
  assumes "\<And>x y. x \<in> set xs \<Longrightarrow> y \<in> set ys \<Longrightarrow> code_on cj_write x y"
  shows "code_on cj_write (CJ_List xs) (CJ_List ys)"
  unfolding code_on_def
proof (intro allI impI)
  fix r r' assume "cj_write (CJ_List xs) @ r = cj_write (CJ_List ys) @ r'"
  then have "sep_concat '','' (map cj_write xs) @ CHR '']'' # r = sep_concat '','' (map cj_write ys) @ CHR '']'' # r'"
    by simp
  then have "xs = ys \<and> r = r'"
    by (rule sep_concat_inj) (use assms cj_head_not_close in auto)
  then show "CJ_List xs = CJ_List ys \<and> r = r'" by simp
qed

lemma code_on_entry:
  assumes "code_on cj_write (snd e) (snd e')"
  shows "code_on write_entry e e'"
  unfolding code_on_def
proof (intro allI impI)
  fix r r' assume eq: "write_entry e @ r = write_entry e' @ r'" and ends: "ends_number r" "ends_number r'"
  then have "fst e = fst e' \<and> CHR '':'' # cj_write (snd e) @ r = CHR '':'' # cj_write (snd e') @ r'"
    by (intro write_json_string_inj) (simp add: write_entry_def)
  with assms ends show "e = e' \<and> r = r'"
    by (auto simp: code_on_def prod_eq_iff)
qed

lemma write_entry_head: "write_entry e \<noteq> [] \<and> hd (write_entry e) = quote"
  by (simp add: write_entry_def write_json_string_def)

lemma code_on_obj:
  assumes "\<And>x y. x \<in> set xs \<Longrightarrow> y \<in> set ys \<Longrightarrow> code_on cj_write (snd x) (snd y)"
    and "sorted (map fst xs)" and "sorted (map fst ys)"
  shows "code_on cj_write (CJ_Obj xs) (CJ_Obj ys)"
  unfolding code_on_def
proof (intro allI impI)
  fix r r' assume "cj_write (CJ_Obj xs) @ r = cj_write (CJ_Obj ys) @ r'"
  then have "sep_concat '','' (map write_entry xs) @ CHR ''}'' # r = sep_concat '','' (map write_entry ys) @ CHR ''}'' # r'"
    unfolding cj_write_Obj [OF assms(2)] cj_write_Obj [OF assms(3)] by simp
  then have "xs = ys \<and> r = r'"
    by (rule sep_concat_inj) (use assms(1) write_entry_head code_on_entry in auto)
  then show "CJ_Obj xs = CJ_Obj ys \<and> r = r'" by simp
qed

lemma cj_write_code: "cj_wf v \<Longrightarrow> cj_wf v' \<Longrightarrow> code_on cj_write v v'"
proof (induction v arbitrary: v')
  case (CJ_Str s)
  show ?case
  proof (cases v')
    case (CJ_Str s')
    then show ?thesis by (auto simp: code_on_def dest: write_json_string_inj)
  qed (rule code_on_constructor; use cj_write_head [of v'] in \<open>auto simp: write_json_string_def\<close>)+
next
  case (CJ_Uint n)
  show ?case
  proof (cases v')
    case (CJ_Uint n')
    then show ?thesis by (auto simp: code_on_def word_unat_eq_iff dest: show_nat_append_inj)
  qed (rule code_on_constructor; use cj_write_head [of v'] cj_write_head [of "CJ_Uint n"] in auto)+
next
  case (CJ_List vs)
  show ?case
  proof (cases v')
    case (CJ_List vs')
    with CJ_List.IH CJ_List.prems show ?thesis by (auto intro: code_on_list)
  qed (rule code_on_constructor; use cj_write_head [of v'] in auto)+
next
  case (CJ_Obj es)
  show ?case
  proof (cases v')
    case (CJ_Obj es')
    with CJ_Obj.prems CJ_Obj.IH show ?thesis
      by (auto intro!: code_on_obj simp: snds.simps)
  qed (rule code_on_constructor; use cj_write_head [of v'] in auto)+
qed

lemma cj_write_inj: "cj_write v = cj_write v' \<Longrightarrow> cj_wf v \<Longrightarrow> cj_wf v' \<Longrightarrow> v = v'"
  using cj_write_code [of v v'] by (auto simp: code_on_def ends_number_def)


subsection \<open>Predicates\<close>

lemma predicate_keys_sorted: "cj_wf (predicate_json p)"
  by (simp add: predicate_json_def cj_pair_def cj_spend_def less_char_def)

lemma inj_cj_pair: "inj cj_pair"
  by (auto simp: inj_def cj_pair_def prod_eq_iff)

lemma inj_cj_spend: "inj cj_spend"
  by (auto simp: inj_def cj_spend_def prod_eq_iff budget_words.as_wire_inj)

lemma predicate_json_inj: "predicate_json p = predicate_json q \<longleftrightarrow> p = q"
proof
  assume eq: "predicate_json p = predicate_json q"
  have "inj CJ_Str" by (simp add: inj_def)
  with eq show "p = q"
    by (simp add: predicate_json_def tier_words.as_wire_inj inj_map_eq_map inj_cj_pair inj_cj_spend)
qed simp

lemma inj_spend_key: "inj spend_key"
  by (auto simp: inj_def spend_key_def prod_eq_iff budget_index_inj)

lemma sort_key_eq_iff:
  assumes "inj f"
  shows "sort_key f xs = sort_key f ys \<longleftrightarrow> mset xs = mset ys"
proof
  assume "sort_key f xs = sort_key f ys"
  then show "mset xs = mset ys" by (metis mset_sort)
next
  assume "mset xs = mset ys"
  then show "sort_key f xs = sort_key f ys"
    using assms by (intro sort_key_inj_key_eq) (auto intro: inj_on_subset)
qed

lemma sort_eq_iff: "sort xs = sort ys \<longleftrightarrow> mset xs = mset ys"
  using sort_key_eq_iff [of "\<lambda>x. x" xs ys] by simp

definition same_facts :: "attestation_predicate \<Rightarrow> attestation_predicate \<Rightarrow> bool" where
  "same_facts p q \<longleftrightarrow>
     pd_run_ref p = pd_run_ref q \<and> pd_subject_name p = pd_subject_name q \<and>
     pd_subject_digest p = pd_subject_digest q \<and> pd_model_ref p = pd_model_ref q \<and>
     pd_model_digest p = pd_model_digest q \<and> pd_plan_digest p = pd_plan_digest q \<and>
     pd_policy_digest p = pd_policy_digest q \<and> pd_tool_call_digests p = pd_tool_call_digests q \<and>
     pd_approval_ref p = pd_approval_ref q \<and> pd_tier p = pd_tier q \<and>
     mset (pd_gate_verdicts p) = mset (pd_gate_verdicts q) \<and>
     mset (pd_authority_receipts p) = mset (pd_authority_receipts q) \<and>
     mset (pd_budget_spend p) = mset (pd_budget_spend q)"

lemma normalized_eq_iff: "normalized p = normalized q \<longleftrightarrow> same_facts p q"
proof -
  have "normalized p = normalized q \<longleftrightarrow>
     pd_run_ref p = pd_run_ref q \<and> pd_subject_name p = pd_subject_name q \<and>
     pd_subject_digest p = pd_subject_digest q \<and> pd_model_ref p = pd_model_ref q \<and>
     pd_model_digest p = pd_model_digest q \<and> pd_plan_digest p = pd_plan_digest q \<and>
     pd_policy_digest p = pd_policy_digest q \<and> pd_tool_call_digests p = pd_tool_call_digests q \<and>
     pd_approval_ref p = pd_approval_ref q \<and> pd_tier p = pd_tier q \<and>
     sort (pd_gate_verdicts p) = sort (pd_gate_verdicts q) \<and>
     sort (pd_authority_receipts p) = sort (pd_authority_receipts q) \<and>
     sort_key spend_key (pd_budget_spend p) = sort_key spend_key (pd_budget_spend q)"
    by (cases p; cases q) (auto simp: normalized_def)
  then show ?thesis
    by (simp add: same_facts_def sort_eq_iff sort_key_eq_iff [OF inj_spend_key])
qed

lemma normalized_idem [simp]: "normalized (normalized p) = normalized p"
  by (simp add: normalized_eq_iff) (simp add: same_facts_def normalized_def)

lemma canonical_bytes_eq_iff:
  "canonical_predicate_bytes p = canonical_predicate_bytes q \<longleftrightarrow> same_facts p q"
  using cj_write_inj [OF _ predicate_keys_sorted predicate_keys_sorted]
  by (auto simp: canonical_predicate_bytes_def predicate_json_inj normalized_eq_iff [symmetric])

end
