(* ===== verification/Delivery_Properties.thy ===== *)
theory Delivery_Properties
  imports Delivery_Canonical
begin

text \<open>
  The properties of the delivery core: what the promotion gate grants, what an
  attestation chain binds, how the ledger counts, that canonical bytes identify a
  predicate, what a replay comparison reports, and where the two machines can go.
\<close>

subsection \<open>Chains with the same tip\<close>







subsection \<open>The replay loop\<close>

lemma stage_compare_None: "stage_compare l r = None \<longleftrightarrow> l = r"
  by (cases "(l, r)" rule: stage_compare.cases) auto

definition diff_at :: "stage_digest list \<Rightarrow> stage_digest list \<Rightarrow> nat \<Rightarrow> stage_diff option" where
  "diff_at a b i =
     map_option (\<lambda>(stage, mismatch). \<lparr>df_stage = stage, df_recorded = nth_opt a i,
        df_rederived = nth_opt b i, df_mismatch = mismatch\<rparr>) (stage_compare (nth_opt a i) (nth_opt b i))"

lemma diff_at_None: "diff_at a b i = None \<longleftrightarrow> nth_opt a i = nth_opt b i"
  by (simp add: diff_at_def stage_compare_None)

lemma replay_loop_eq:
  "\<forall>i \<in> set js. i < max (length a) (length b) \<Longrightarrow>
   replay_loop a b js m ds =
     (m + length (filter (\<lambda>i. diff_at a b i = None) js), ds @ List.map_filter (diff_at a b) js)"
proof (induction js arbitrary: m ds)
  case Nil
  then show ?case by (simp add: map_filter_def)
next
  case (Cons i js)
  then have "\<not> (nth_opt a i = None \<and> nth_opt b i = None)"
    by (auto simp: nth_opt_def split: if_splits)
  then show ?case
    using Cons by (cases "stage_compare (nth_opt a i) (nth_opt b i)")
      (auto simp: Let_def diff_at_def map_filter_def)
qed

lemma length_map_filter: "length (List.map_filter f xs) = length (filter (\<lambda>x. f x \<noteq> None) xs)"
  by (simp add: map_filter_def)

lemma nth_opt_ext: "(\<forall>i < max (length a) (length b). nth_opt a i = nth_opt b i) \<longleftrightarrow> a = b"
proof (intro iffI allI impI)
  assume h: "\<forall>i < max (length a) (length b). nth_opt a i = nth_opt b i"
  have "length a = length b"
  proof (rule ccontr)
    assume "length a \<noteq> length b"
    then have "min (length a) (length b) < max (length a) (length b)"
      and "nth_opt a (min (length a) (length b)) \<noteq> nth_opt b (min (length a) (length b))"
      by (auto simp: nth_opt_def min_def max_def)
    with h show False by blast
  qed
  with h show "a = b" by (auto simp: nth_opt_def intro: nth_equalityI)
qed simp


subsection \<open>Concrete evidence for the witnesses\<close>

definition demo_link :: attestation where
  "demo_link = attestation_root ''app'' ''s1'' ''p1'' ''pol'' ''did:a''"

definition demo_request :: promotion_request where
  "demo_request =
     \<lparr>pr_chain = [demo_link], pr_policy_digest = ''pol'', pr_live_subject_digest = ''s1'',
      pr_approval = Some \<lparr>app_subject_digest = ''s2'', app_principal_did = ''did:h'', app_scope = ''prod'',
                          app_expires_at_epoch = 10\<rparr>,
      pr_budgets = ledger_new \<lparr>ceil_tokens = 5, ceil_tool_calls = 5, ceil_files = 5, ceil_minutes = 5,
                               ceil_blast_radius = 0\<rparr>,
      pr_tier = Tier_BoundedAuto, pr_trace_mode = Trace_Exploratory, pr_now_epoch = 20\<rparr>"

lemma demo_link_sound: "chain_sound cr [demo_link] ''s1''"
  by (simp add: chain_sound_def demo_link_def attestation_root_def is_complete_def PREDICATE_TYPE_def)

subsection \<open>Properties of the delivery core\<close>

text \<open>
  C10. The promotion gate is total and deny wins.  It answers \<^verbatim>\<open>Allow\<close> exactly when the
  chain is complete, rooted, digest-linked and about the live artifact, every link was made
  under the policy in force, an unexpired approval names that artifact, every enforced
  budget has headroom and the tier is \<^verbatim>\<open>BoundedAuto\<close>; \<^verbatim>\<open>Prompt\<close> exactly when the same holds
  for \<^verbatim>\<open>Delegated\<close>; and it denies otherwise.  The recorded trace mode is not read.
\<close>

theorem promote_decides:
  "(promote cr req = Dec_Allow \<longleftrightarrow> admissible cr req \<and> pr_tier req = Tier_BoundedAuto) \<and>
   (promote cr req = Dec_Prompt \<longleftrightarrow> admissible cr req \<and> pr_tier req = Tier_Delegated) \<and>
   ((\<exists>r. promote cr req = Dec_Deny r) \<longleftrightarrow> \<not> admissible cr req) \<and>
   promote cr (req\<lparr>pr_trace_mode := m\<rparr>) = promote cr req"
proof -
  have "admissible cr req \<Longrightarrow> pr_tier req = Tier_BoundedAuto \<or> pr_tier req = Tier_Delegated"
    using is_promoting_le [of "pr_tier req"] by (auto simp: admissible_def is_promoting_def)
  moreover have "promote cr (req\<lparr>pr_trace_mode := m\<rparr>) = promote cr req"
  proof -
    have "deny_reasons cr (req\<lparr>pr_trace_mode := m\<rparr>) = deny_reasons cr req"
      unfolding deny_reasons_def by (rule arg_cong2 [where f = append])
        (auto simp: chain_defect_def policy_defect_def approval_reasons_def split: list.splits option.splits)
    then show ?thesis by (simp add: promote_def split: list.splits)
  qed
  ultimately show ?thesis by (auto simp: promote_eq)
qed




text \<open>
  C12. The ledger counts without wrapping.  After any sequence of draws each counter is the
  sum of its draws capped at the largest \<^verbatim>\<open>u64\<close>, ceilings are untouched, an exhausted
  ledger stays exhausted, and draws on the unenforced dimension alone change no verdict.
\<close>

theorem ledger_draws:
  assumes "ledger_ok l"
  shows "unat (bud_spent (ledger_budget (spend_all l draws) k)) =
           min (unat (bud_spent (ledger_budget l k)) +
                sum_list (map (\<lambda>d. unat (snd d)) (filter (\<lambda>d. fst d = k) draws))) (2 ^ 64 - 1) \<and>
         (ledger_has_headroom (spend_all l draws) \<longrightarrow> ledger_has_headroom l) \<and>
         ledger_has_headroom (ledger_spend l Bud_BlastRadius a) = ledger_has_headroom l \<and>
         ledger_ok (spend_all l draws)"
  using assms spend_all_spent spend_all_headroom spend_all_ok
  by (auto simp: headroom_iff ledger_budget_spend is_enforced_def)

theorem ledger_draws_witness:
  "ledger_ok (spend_all ledger_default [(Bud_Tokens, 7), (Bud_Files, 1), (Bud_Tokens, 3)]) \<and>
   unat (bud_spent (ledger_budget (spend_all ledger_default [(Bud_Tokens, 7), (Bud_Files, 1), (Bud_Tokens, 3)])
     Bud_Tokens)) = 10"
proof -
  have "bud_spent (ledger_budget ledger_default Bud_Tokens) = 0"
    by (simp add: ledger_default_def ledger_new_def ledger_budget_def budget_new_def)
  moreover have "ledger_ok ledger_default" by (simp add: ledger_default_def ledger_new_ok)
  ultimately show ?thesis
    using ledger_draws [of ledger_default "[(Bud_Tokens, 7), (Bud_Files, 1), (Bud_Tokens, 3)]" Bud_Tokens]
    by simp
qed

text \<open>
  C13. Canonical bytes identify the predicate.  Two predicates have the same canonical bytes
  exactly when they agree on every scalar field and on the tool-call sequence, order
  included, and carry the same gate verdicts, authority receipts and budget spend up to
  order, repetitions counted.
\<close>

theorem canonical_bytes_identify:
  "canonical_predicate_bytes p = canonical_predicate_bytes q \<longleftrightarrow> same_facts p q"
  by (rule canonical_bytes_eq_iff)



text \<open>
  The replay comparison is exact.  Every position is either matched or reported once,
  in order; nothing is reported exactly when the two recordings are equal; and a report
  exists for a position exactly when the two sides differ there.
\<close>

lemma compare_replay_exact:
  "rd_compared (compare_replay a b) = max (length a) (length b) \<and>
   rd_matched (compare_replay a b) + rd_mismatched (compare_replay a b) = rd_compared (compare_replay a b) \<and>
   rd_diffs (compare_replay a b) = List.map_filter (diff_at a b) [0..<max (length a) (length b)] \<and>
   (diff_at a b i = None \<longleftrightarrow> nth_opt a i = nth_opt b i) \<and>
   (all_digests_match (compare_replay a b) \<longleftrightarrow> a = b)"
proof -
  let ?n = "max (length a) (length b)"
  have loop: "replay_loop a b [0..<?n] 0 [] =
      (length (filter (\<lambda>i. diff_at a b i = None) [0..<?n]), List.map_filter (diff_at a b) [0..<?n])"
    using replay_loop_eq [of "[0..<?n]" a b 0 "[]"] by simp
  have sum: "length (filter (\<lambda>i. diff_at a b i = None) [0..<?n]) +
      length (List.map_filter (diff_at a b) [0..<?n]) = ?n"
    using sum_length_filter_compl [of "\<lambda>i. diff_at a b i = None" "[0..<?n]"]
    by (simp add: length_map_filter)
  have "all_digests_match (compare_replay a b) \<longleftrightarrow> (\<forall>i < ?n. nth_opt a i = nth_opt b i)"
    by (auto simp: all_digests_match_def compare_replay_def Let_def loop length_map_filter
        filter_empty_conv diff_at_None)
  with sum show ?thesis
    by (simp add: compare_replay_def Let_def loop diff_at_None nth_opt_ext)
qed

lemma release_path_verified_from:
  "legal_path is_legal_release_transition s (ts @ [Rel_Verified]) \<Longrightarrow>
   release_rank s < 6 \<and>
   s # ts = drop (release_rank s)
     [Rel_Proposed, Rel_Approved, Rel_Building, Rel_Attested, Rel_Staged, Rel_Promoted]"
proof (induction ts arbitrary: s)
  case Nil
  then show ?case by (cases s) auto
next
  case (Cons t ts)
  then have "is_legal_release_transition s t" and "release_rank t < 6 \<and>
     t # ts = drop (release_rank t)
       [Rel_Proposed, Rel_Approved, Rel_Building, Rel_Attested, Rel_Staged, Rel_Promoted]"
    by simp_all
  then show ?case by (cases s) auto
qed

lemma release_path_verified:
  "legal_path is_legal_release_transition Rel_Proposed (ts @ [Rel_Verified]) \<Longrightarrow>
   ts = [Rel_Approved, Rel_Building, Rel_Attested, Rel_Staged, Rel_Promoted]"
  using release_path_verified_from [of Rel_Proposed ts] by simp

lemma release_after_promotion:
  assumes "legal_path is_legal_release_transition s ts"
    and "s = Rel_Promoted \<or> s = Rel_Verified \<or> s = Rel_RolledBack"
  shows "Rel_Failed \<notin> set ts"
  using assms
proof (induction ts arbitrary: s)
  case (Cons t ts)
  then have "t = Rel_Verified \<or> t = Rel_RolledBack" by auto
  with Cons.IH [of t] Cons.prems show ?case by auto
qed simp

text \<open>
  The machines only move forward.  A legal phase path from \<^verbatim>\<open>Scope\<close> to \<^verbatim>\<open>Done\<close> is the
  full five-step sequence; a legal release path never repeats a status and has at most
  seven moves, it reaches \<^verbatim>\<open>Verified\<close> from \<^verbatim>\<open>Proposed\<close> only through every stage in order, and
  once promoted a release never fails, it is at most rolled back.
\<close>

lemma delivery_machines:
  "(legal_path is_legal_phase_transition Phase_Scope (ps @ [Phase_Done]) \<longleftrightarrow>
      ps = [Phase_Design, Phase_Build, Phase_Release, Phase_Operate]) \<and>
   (legal_path is_legal_release_transition s ts \<longrightarrow> distinct (s # ts) \<and> length ts \<le> 7) \<and>
   (legal_path is_legal_release_transition Rel_Proposed (us @ [Rel_Verified]) \<longleftrightarrow>
      us = [Rel_Approved, Rel_Building, Rel_Attested, Rel_Staged, Rel_Promoted]) \<and>
   (legal_path is_legal_release_transition Rel_Promoted vs \<longrightarrow> Rel_Failed \<notin> set vs)"
proof (intro conjI impI)
  have "map phase_rank ps = [1, 2, 3, 4]"
    if path: "legal_path is_legal_phase_transition Phase_Scope (ps @ [Phase_Done])"
  proof -
    have "length ps = 4" using legal_phase_path [OF path] by (simp split: if_splits)
    with legal_phase_path [OF path] show ?thesis by (simp add: upt_rec)
  qed
  then have "ps = [Phase_Design, Phase_Build, Phase_Release, Phase_Operate]"
    if "legal_path is_legal_phase_transition Phase_Scope (ps @ [Phase_Done])"
    using that phase_rank_inj [of _ Phase_Design] phase_rank_inj [of _ Phase_Build]
      phase_rank_inj [of _ Phase_Release] phase_rank_inj [of _ Phase_Operate]
    by (auto simp: map_eq_Cons_conv)
  then show "legal_path is_legal_phase_transition Phase_Scope (ps @ [Phase_Done]) \<longleftrightarrow>
      ps = [Phase_Design, Phase_Build, Phase_Release, Phase_Operate]" by auto
next
  assume path: "legal_path is_legal_release_transition s ts"
  show "distinct (s # ts)" using release_machine.path_distinct [OF path] .
  show "length ts \<le> 7" using release_machine.path_length [OF path] by simp
next
  show "legal_path is_legal_release_transition Rel_Proposed (us @ [Rel_Verified]) \<longleftrightarrow>
      us = [Rel_Approved, Rel_Building, Rel_Attested, Rel_Staged, Rel_Promoted]"
    using release_path_verified by auto
next
  assume "legal_path is_legal_release_transition Rel_Promoted vs"
  then show "Rel_Failed \<notin> set vs" using release_after_promotion by blast
qed

lemma delivery_machines_witness:
  "distinct (Rel_Promoted # [Rel_Verified, Rel_RolledBack]) \<and> length [Rel_Verified, Rel_RolledBack] \<le> 7 \<and>
   Rel_Failed \<notin> set [Rel_Verified, Rel_RolledBack]"
  using delivery_machines [of "[]" Rel_Promoted "[Rel_Verified, Rel_RolledBack]" "[]" "[Rel_Verified, Rel_RolledBack]"]
  by simp

text \<open>
  An expired approval for another artifact is reported as a mismatch.  When chain and
  policy are in order, an approval that does not name the live artifact yields
  \<^verbatim>\<open>ApprovalSubjectMismatch\<close> whether or not it has expired, although \<^verbatim>\<open>ApprovalExpired\<close> stands
  before it in the declared order of the reasons.
\<close>

lemma expired_mismatch_reported:
  assumes "chain_defect cr req = None" and "\<not> policy_defect req" and "pr_approval req = Some a"
    and "app_subject_digest a \<noteq> pr_live_subject_digest req" and "app_expires_at_epoch a \<le> pr_now_epoch req"
  shows "promote cr req = Dec_Deny ApprovalSubjectMismatch \<and>
         takeWhile (\<lambda>r. r \<noteq> ApprovalSubjectMismatch) DENY_ALL =
           [AttestationChainBroken, PolicyDigestMismatch, ApprovalMissing, ApprovalExpired]"
  using assms
  by (simp add: promote_def deny_reasons_def approval_reasons_def approval_binds_def DENY_ALL_def)

lemma expired_mismatch_example:
  "promote const_crypto demo_request = Dec_Deny ApprovalSubjectMismatch"
proof -
  have "chain_defect const_crypto demo_request = None"
    unfolding chain_defect_None using demo_link_sound [of const_crypto] by (simp add: demo_request_def)
  moreover have "\<not> policy_defect demo_request"
    by (simp add: policy_defect_def demo_request_def demo_link_def attestation_root_def)
  ultimately show ?thesis
    using expired_mismatch_reported [of const_crypto demo_request] by (simp add: demo_request_def)
qed

end
