(* ===== verification/Consensus_Core.thy ===== *)
theory Consensus_Core
  imports Audit_Link
begin

text \<open>
  The consensus core (\<^verbatim>\<open>crates/brain-consensus-core/src/lib.rs\<close>): reviews of an artifact,
  the join gate on a round of reviews, the bounded advance of the consensus state, the
  staged files of a round, intent reconciliation and the approval gate.  \<^verbatim>\<open>usize\<close> is a
  64-bit word, whose \<open>+\<close> wraps as the release build's does.
\<close>

subsection \<open>Definitions\<close>

definition MAX_ITERATIONS :: u64 where
  "MAX_ITERATIONS = 5"

record artifact =
  ar_id :: str
  ar_content :: str
  ar_hash :: str

definition artifact_new :: "crypto \<Rightarrow> str \<Rightarrow> str \<Rightarrow> artifact" where
  "artifact_new cr aid content =
     \<lparr>ar_id = aid, ar_content = content, ar_hash = hex_encode (sha256 cr content)\<rparr>"

datatype verdict = Approve | Revise

record review =
  rv_reviewer :: str
  rv_artifact_id :: str
  rv_verdict :: verdict
  rv_notes :: str

datatype consensus_status = Con_InProgress u64 | Con_Stuck | Con_Approved

record consensus_state =
  cs_artifact :: artifact
  cs_iteration :: u64
  cs_status :: consensus_status
  cs_history :: "artifact list"
  cs_resume_lineage :: "str list"

definition consensus_new :: "artifact \<Rightarrow> consensus_state" where
  "consensus_new a =
     \<lparr>cs_artifact = a, cs_iteration = 0, cs_status = Con_InProgress 0, cs_history = [],
      cs_resume_lineage = []\<rparr>"

definition with_lineage :: "consensus_state \<Rightarrow> str list \<Rightarrow> consensus_state" where
  "with_lineage s lineage = s\<lparr>cs_resume_lineage := lineage\<rparr>"

text \<open>The loop over the reviewers; \<open>seen\<close> is the list of names so far.\<close>

fun reviewer_loop :: "str list \<Rightarrow> review list \<Rightarrow> str + unit" where
  "reviewer_loop seen [] = Inr ()"
| "reviewer_loop seen (r # rs) =
     (if trim (rv_reviewer r) = [] then Inl ''review_join_gate_requires_reviewer_identity''
      else if rv_reviewer r \<in> set seen then Inl ''review_join_gate_requires_distinct_reviewers''
      else reviewer_loop (seen @ [rv_reviewer r]) rs)"

definition review_join_gate :: "review list \<Rightarrow> str + unit" where
  "review_join_gate reviews =
     (if length reviews < 2 then Inl ''need_two_reviews''
      else if \<not> list_all (\<lambda>r. rv_artifact_id r = rv_artifact_id (hd reviews)) reviews
      then Inl ''review_join_gate_requires_same_artifact''
      else reviewer_loop [] reviews)"

definition advance :: "consensus_state \<Rightarrow> review list \<Rightarrow> artifact option \<Rightarrow> str + consensus_state" where
  "advance s reviews next_artifact =
     (if cs_status s = Con_Stuck \<or> cs_status s = Con_Approved then Inl ''terminal''
      else case review_join_gate reviews of
        Inl e \<Rightarrow> Inl e
      | Inr _ \<Rightarrow>
          if \<not> list_ex (\<lambda>r. rv_verdict r = Revise) reviews
          then Inr (s\<lparr>cs_status := Con_Approved\<rparr>)
          else if cs_iteration s + 1 \<ge> MAX_ITERATIONS
          then Inr (s\<lparr>cs_status := Con_Stuck, cs_iteration := cs_iteration s + 1\<rparr>)
          else case next_artifact of
                 None \<Rightarrow> Inl ''revision_required''
               | Some next \<Rightarrow>
                   Inr (s\<lparr>cs_history := cs_history s @ [cs_artifact s], cs_artifact := next,
                          cs_iteration := cs_iteration s + 1,
                          cs_status := Con_InProgress (cs_iteration s + 1)\<rparr>))"

record stage_file =
  sf_name :: str
  sf_content :: str
  sf_sha256 :: str

definition pad2 :: "nat \<Rightarrow> str" where
  "pad2 n = (if n < 10 then ''0'' @ show_nat n else show_nat n)"

definition stage_name :: "nat \<Rightarrow> str \<Rightarrow> str" where
  "stage_name i kind = ''stage-'' @ pad2 (i + 1) @ ''-'' @ kind @ ''.md''"

definition newline :: str where
  "newline = [CHR 0x0A]"

definition stage_of :: "crypto \<Rightarrow> nat \<Rightarrow> artifact \<Rightarrow> str \<Rightarrow> stage_file" where
  "stage_of cr i art kind =
     \<lparr>sf_name = stage_name i kind,
      sf_content = ''# '' @ ar_id art @ newline @ newline @ ar_content art @ newline,
      sf_sha256 = hex_encode (sha256 cr (ar_content art))\<rparr>"

definition index_line :: "stage_file \<Rightarrow> str" where
  "index_line f =
     ''{'' @ [CHR 0x22] @ ''name'' @ [CHR 0x22] @ '':'' @ [CHR 0x22] @ sf_name f @ [CHR 0x22] @ '','' @
     [CHR 0x22] @ ''sha256'' @ [CHR 0x22] @ '':'' @ [CHR 0x22] @ sf_sha256 f @ [CHR 0x22] @ ''}''"

fun stage_loop :: "crypto \<Rightarrow> nat \<Rightarrow> (artifact \<times> str) list \<Rightarrow> stage_file list" where
  "stage_loop cr i [] = []"
| "stage_loop cr i ((art, kind) # rest) = stage_of cr i art kind # stage_loop cr (i + 1) rest"

fun join_lines :: "str list \<Rightarrow> str" where
  "join_lines [] = []"
| "join_lines [l] = l"
| "join_lines (l # m # ls) = l @ newline @ join_lines (m # ls)"

definition pending_file :: "crypto \<Rightarrow> artifact list \<Rightarrow> stage_file" where
  "pending_file cr artifacts =
     \<lparr>sf_name = ''pending-approval.md'',
      sf_content = (if artifacts = [] then [] else ar_content (last artifacts)),
      sf_sha256 = (if artifacts = [] then [] else hex_encode (sha256 cr (ar_content (last artifacts))))\<rparr>"

definition stage_writer :: "crypto \<Rightarrow> artifact list \<Rightarrow> str list \<Rightarrow> str + (stage_file list \<times> str)" where
  "stage_writer cr artifacts kinds =
     (if length artifacts \<noteq> length kinds
      then Inl (''stage_writer_requires_one_kind_per_artifact:'' @ show_nat (length artifacts) @ '':'' @
                show_nat (length kinds))
      else let files = stage_loop cr 0 (zip artifacts kinds)
           in Inr (files @ [pending_file cr artifacts], join_lines (map index_line files)))"

definition intent_reconciliation :: "str \<Rightarrow> str list \<Rightarrow> bool \<Rightarrow> str + unit" where
  "intent_reconciliation spec_hash prior_hashes confirmed =
     (if spec_hash \<in> set prior_hashes then Inr ()
      else if \<not> confirmed then Inl ''intent_reconciliation_requires_explicit_confirm''
      else Inr ())"

definition approval_gate :: "consensus_status \<Rightarrow> bool" where
  "approval_gate st = (st = Con_Approved)"

subsection \<open>The join gate\<close>

lemma reviewer_loop_ok:
  "reviewer_loop seen rs = Inr () \<longleftrightarrow>
     (\<forall>r \<in> set rs. trim (rv_reviewer r) \<noteq> [] \<and> rv_reviewer r \<notin> set seen) \<and> distinct (map rv_reviewer rs)"
proof (induction rs arbitrary: seen)
  case (Cons r rs)
  have "(\<forall>x \<in> set rs. rv_reviewer x \<noteq> rv_reviewer r) \<longleftrightarrow> rv_reviewer r \<notin> rv_reviewer ` set rs"
    by (metis image_iff)
  then show ?case
    using Cons.IH [of "seen @ [rv_reviewer r]"] by auto
qed simp

lemma review_join_gate_ok:
  "review_join_gate reviews = Inr () \<longleftrightarrow>
     2 \<le> length reviews \<and> (\<forall>r \<in> set reviews. rv_artifact_id r = rv_artifact_id (hd reviews)) \<and>
     (\<forall>r \<in> set reviews. trim (rv_reviewer r) \<noteq> []) \<and> distinct (map rv_reviewer reviews)"
  by (auto simp: review_join_gate_def list_all_iff reviewer_loop_ok)

subsection \<open>Rounds\<close>

fun rounds :: "consensus_state \<Rightarrow> (review list \<times> artifact option) list \<Rightarrow> str + consensus_state" where
  "rounds s [] = Inr s"
| "rounds s ((rs, next) # later) = (case advance s rs next of Inl e \<Rightarrow> Inl e | Inr s' \<Rightarrow> rounds s' later)"

text \<open>Steps of the consensus machine, failed calls included (they leave the state to the caller).\<close>

inductive consensus_reach :: "artifact \<Rightarrow> consensus_state \<Rightarrow> bool" for a where
  consensus_start: "consensus_reach a (with_lineage (consensus_new a) lineage)"
| consensus_step: "consensus_reach a s \<Longrightarrow> advance s rs next = Inr s' \<Longrightarrow> consensus_reach a s'"

inductive_cases consensus_reachE: "consensus_reach a s"

lemma advance_cases:
  assumes "advance s rs next = Inr s'"
  obtains (approved) "cs_status s \<noteq> Con_Stuck" "cs_status s \<noteq> Con_Approved" "review_join_gate rs = Inr ()"
      "\<forall>r \<in> set rs. rv_verdict r = Approve" "s' = s\<lparr>cs_status := Con_Approved\<rparr>"
  | (stuck) "cs_status s \<noteq> Con_Stuck" "cs_status s \<noteq> Con_Approved" "review_join_gate rs = Inr ()"
      "cs_iteration s + 1 \<ge> MAX_ITERATIONS"
      "s' = s\<lparr>cs_status := Con_Stuck, cs_iteration := cs_iteration s + 1\<rparr>"
  | (revised) n where "cs_status s \<noteq> Con_Stuck" "cs_status s \<noteq> Con_Approved" "review_join_gate rs = Inr ()"
      "cs_iteration s + 1 < MAX_ITERATIONS" "next = Some n"
      "s' = s\<lparr>cs_history := cs_history s @ [cs_artifact s], cs_artifact := n,
              cs_iteration := cs_iteration s + 1, cs_status := Con_InProgress (cs_iteration s + 1)\<rparr>"
proof -
  have "rv_verdict r \<noteq> Revise \<longleftrightarrow> rv_verdict r = Approve" for r by (cases "rv_verdict r") auto
  then show thesis
    using assms that
    by (auto simp: advance_def list_ex_iff not_le split: if_splits sum.splits option.splits)
qed

definition consensus_inv :: "consensus_state \<Rightarrow> bool" where
  "consensus_inv s \<longleftrightarrow>
     (case cs_status s of
        Con_InProgress i \<Rightarrow> i = cs_iteration s \<and> cs_iteration s < 5 \<and> length (cs_history s) = unat (cs_iteration s)
      | Con_Stuck \<Rightarrow> cs_iteration s = 5 \<and> length (cs_history s) = 4
      | Con_Approved \<Rightarrow> cs_iteration s < 5 \<and> length (cs_history s) = unat (cs_iteration s))"

lemma iteration_step: "i < 5 \<Longrightarrow> i + 1 < 5 \<or> i = (4 :: u64)"
  by (auto simp: word_less_nat_alt unat_word_ariths word_unat_eq_iff)

lemma iteration_unat: "i < 5 \<Longrightarrow> unat (i + 1 :: u64) = unat i + 1"
  by (simp add: word_less_nat_alt unat_word_ariths)

lemma advance_inv:
  assumes inv: "consensus_inv s" and step: "advance s rs next = Inr s'"
  shows "consensus_inv s'"
  using step
proof (cases rule: advance_cases)
  case approved
  with inv show ?thesis by (cases "cs_status s") (auto simp: consensus_inv_def)
next
  case stuck
  with inv have i: "cs_iteration s < 5" and len: "length (cs_history s) = unat (cs_iteration s)"
    by (cases "cs_status s"; auto simp: consensus_inv_def)+
  from iteration_step [OF i] stuck(4) have "cs_iteration s = 4"
    by (auto simp: MAX_ITERATIONS_def)
  with stuck len show ?thesis by (simp add: consensus_inv_def)
next
  case (revised n)
  with inv have i: "cs_iteration s < 5" and len: "length (cs_history s) = unat (cs_iteration s)"
    by (cases "cs_status s"; auto simp: consensus_inv_def)+
  from revised len iteration_unat [OF i] show ?thesis
    by (simp add: consensus_inv_def MAX_ITERATIONS_def)
qed

lemma consensus_reach_inv: "consensus_reach a s \<Longrightarrow> consensus_inv s"
proof (induction rule: consensus_reach.induct)
  case consensus_start
  show ?case by (simp add: consensus_inv_def consensus_new_def with_lineage_def)
next
  case consensus_step
  then show ?case by (blast intro: advance_inv)
qed


lemma rounds_snoc: "rounds s (rds @ [(rs, n)]) = Inr s' \<longleftrightarrow> (\<exists>t. rounds s rds = Inr t \<and> advance t rs n = Inr s')"
  by (induction rds arbitrary: s) (auto split: sum.splits)

lemma rounds_reach: "consensus_reach a s \<Longrightarrow> rounds s rds = Inr s' \<Longrightarrow> consensus_reach a s'"
proof (induction rds arbitrary: s)
  case (Cons rd rds)
  obtain rs n where rd: "rd = (rs, n)" by (cases rd)
  from Cons.prems(2) obtain t where "advance s rs n = Inr t" and "rounds t rds = Inr s'"
    by (auto simp: rd split: sum.splits)
  with Cons.IH [of t] consensus_step [OF Cons.prems(1)] show ?case by blast
qed simp

lemma advance_progress:
  assumes "consensus_inv s" and "advance s rs n = Inr s'"
  shows "cs_status s' = Con_Approved \<or> unat (cs_iteration s') = unat (cs_iteration s) + 1"
  using assms(2)
proof (cases rule: advance_cases)
  case stuck
  then have "cs_iteration s < 5" using assms(1) by (cases "cs_status s") (auto simp: consensus_inv_def)
  with stuck show ?thesis by (simp add: iteration_unat)
next
  case (revised m)
  then have "cs_iteration s < 5" using assms(1) by (cases "cs_status s") (auto simp: consensus_inv_def)
  with revised show ?thesis by (simp add: iteration_unat)
qed simp

lemma iteration_le: "consensus_inv s \<Longrightarrow> unat (cs_iteration s) \<le> 5"
  by (cases "cs_status s") (auto simp: consensus_inv_def word_less_nat_alt)

lemma advance_terminal: "cs_status s = Con_Stuck \<or> cs_status s = Con_Approved \<Longrightarrow> advance s rs n = Inl ''terminal''"
  by (simp add: advance_def)

lemma rounds_length:
  "consensus_inv s \<Longrightarrow> rounds s rds = Inr s' \<Longrightarrow> length rds + unat (cs_iteration s) \<le> 5"
proof (induction rds arbitrary: s)
  case Nil
  then show ?case by (simp add: iteration_le)
next
  case (Cons rd rds)
  obtain rs n where rd: "rd = (rs, n)" by (cases rd)
  from Cons.prems(2) obtain t where t: "advance s rs n = Inr t" and rest: "rounds t rds = Inr s'"
    by (auto simp: rd split: sum.splits)
  have inv: "consensus_inv t" using Cons.prems(1) t by (rule advance_inv)
  show ?case
  proof (cases "cs_status t = Con_Approved")
    case True
    then have "rds = []" using rest by (cases rds) (auto simp: advance_terminal)
    moreover have "unat (cs_iteration s) < 5"
    proof -
      have "cs_iteration s < 5"
        using t Cons.prems(1)
        by (cases rule: advance_cases; cases "cs_status s") (auto simp: consensus_inv_def)
      then show ?thesis by (simp add: word_less_nat_alt)
    qed
    ultimately show ?thesis by simp
  next
    case False
    with advance_progress [OF Cons.prems(1) t] Cons.IH [OF inv rest] show ?thesis by simp
  qed
qed

subsection \<open>Properties\<close>

definition demo_reviews :: "str \<Rightarrow> verdict \<Rightarrow> review list" where
  "demo_reviews aid v =
     [\<lparr>rv_reviewer = ''alice'', rv_artifact_id = aid, rv_verdict = v, rv_notes = []\<rparr>,
      \<lparr>rv_reviewer = ''bob'', rv_artifact_id = aid, rv_verdict = Approve, rv_notes = []\<rparr>]"

definition demo_artifact :: artifact where
  "demo_artifact = \<lparr>ar_id = ''a'', ar_content = ''c'', ar_hash = ''h''\<rparr>"

lemma demo_gate: "review_join_gate (demo_reviews aid v) = Inr ()"
  unfolding review_join_gate_ok
  by (simp add: demo_reviews_def trim_def trim_end_def ws1_def ws2_def ws3_def byte_is_def)

text \<open>
  C15. Consensus is bounded and earned.  From a fresh state at most five rounds succeed.
  Whatever rounds were played, an approved state came from a last round of at least two
  reviews by distinct, named reviewers of one artifact id, all approving; a stuck state
  used all five iterations and kept the four superseded artifacts; and no round succeeds
  after either.
\<close>

theorem consensus_bounded:
  assumes "rounds (with_lineage (consensus_new a) lineage) rds = Inr s"
  shows "length rds \<le> 5 \<and> consensus_inv s \<and>
         (approval_gate (cs_status s) \<longrightarrow>
            (\<exists>rs n. rds \<noteq> [] \<and> last rds = (rs, n) \<and> 2 \<le> length rs \<and> distinct (map rv_reviewer rs) \<and>
                 (\<forall>r \<in> set rs. trim (rv_reviewer r) \<noteq> [] \<and> rv_verdict r = Approve \<and>
                     rv_artifact_id r = rv_artifact_id (hd rs)))) \<and>
         (cs_status s = Con_Stuck \<or> cs_status s = Con_Approved \<longrightarrow> (\<forall>rs n. advance s rs n = Inl ''terminal''))"
proof -
  let ?s0 = "with_lineage (consensus_new a) lineage"
  have inv0: "consensus_inv ?s0" using consensus_reach_inv consensus_start by blast
  have inv: "consensus_inv s"
    using rounds_reach [OF consensus_start assms] consensus_reach_inv by blast
  have "\<exists>rs n. rds \<noteq> [] \<and> last rds = (rs, n) \<and> 2 \<le> length rs \<and> distinct (map rv_reviewer rs) \<and>
          (\<forall>r \<in> set rs. trim (rv_reviewer r) \<noteq> [] \<and> rv_verdict r = Approve \<and>
             rv_artifact_id r = rv_artifact_id (hd rs))" if ap: "cs_status s = Con_Approved"
  proof (cases rds rule: rev_cases)
    case Nil
    with assms ap show ?thesis by (auto simp: consensus_new_def with_lineage_def)
  next
    case (snoc rds' rd)
    obtain rs n where rd: "rd = (rs, n)" by (cases rd)
    from assms obtain t where "advance t rs n = Inr s" by (auto simp: snoc rd rounds_snoc)
    then have "review_join_gate rs = Inr () \<and> (\<forall>r \<in> set rs. rv_verdict r = Approve)"
      using ap by (cases rule: advance_cases) auto
    then show ?thesis
      by (intro exI [of _ rs] exI [of _ n]) (auto simp: snoc rd review_join_gate_ok)
  qed
  then show ?thesis
    using rounds_length [OF inv0 assms] inv advance_terminal by (auto simp: approval_gate_def)
qed

theorem consensus_bounded_witness:
  "rounds (with_lineage (consensus_new demo_artifact) []) [(demo_reviews ''a'' Revise, Some demo_artifact),
     (demo_reviews ''a'' Approve, None)] \<noteq> Inl ''terminal'' \<and>
   length [(demo_reviews ''a'' Revise, Some demo_artifact), (demo_reviews ''a'' Approve, None :: artifact option)] \<le> 5"
proof -
  have "list_ex (\<lambda>r. rv_verdict r = Revise) (demo_reviews ''a'' Revise)"
    "\<not> list_ex (\<lambda>r. rv_verdict r = Revise) (demo_reviews ''a'' Approve)"
    by (simp_all add: demo_reviews_def)
  then have "\<exists>t. advance (with_lineage (consensus_new demo_artifact) []) (demo_reviews ''a'' Revise)
        (Some demo_artifact) = Inr t \<and> cs_status t = Con_InProgress 1"
    and "\<And>t. cs_status t = Con_InProgress 1 \<Longrightarrow> \<exists>u. advance t (demo_reviews ''a'' Approve) None = Inr u"
    by (simp_all add: advance_def demo_gate consensus_new_def with_lineage_def MAX_ITERATIONS_def word_le_nat_alt)
  then obtain t u where "advance (with_lineage (consensus_new demo_artifact) []) (demo_reviews ''a'' Revise)
        (Some demo_artifact) = Inr t" and "advance t (demo_reviews ''a'' Approve) None = Inr u" by blast
  then have "rounds (with_lineage (consensus_new demo_artifact) [])
      [(demo_reviews ''a'' Revise, Some demo_artifact), (demo_reviews ''a'' Approve, None)] = Inr u"
    by simp
  with consensus_bounded [OF this] show ?thesis by simp
qed

text \<open>
  C16. The round need not be about the artifact it approves.  Two approving reviews that
  name any artifact id at all approve the artifact of the state: \<^verbatim>\<open>advance\<close> checks that the
  reviews agree with each other and never that they name the state's artifact.
\<close>

theorem approval_of_unreviewed_artifact:
  "\<forall>a other. ar_id a \<noteq> other \<longrightarrow>
     (\<exists>rs s. (\<forall>r \<in> set rs. rv_artifact_id r = other) \<and> advance (consensus_new a) rs None = Inr s \<and>
         cs_artifact s = a \<and> approval_gate (cs_status s))"
proof (intro allI impI)
  fix a other
  have "\<not> list_ex (\<lambda>r. rv_verdict r = Revise) (demo_reviews other Approve)"
    by (simp add: demo_reviews_def)
  then have "advance (consensus_new a) (demo_reviews other Approve) None =
      Inr ((consensus_new a)\<lparr>cs_status := Con_Approved\<rparr>)"
    by (simp add: advance_def demo_gate consensus_new_def)
  then show "\<exists>rs s. (\<forall>r \<in> set rs. rv_artifact_id r = other) \<and> advance (consensus_new a) rs None = Inr s \<and>
         cs_artifact s = a \<and> approval_gate (cs_status s)"
    by (intro exI [of _ "demo_reviews other Approve"] exI [of _ "(consensus_new a)\<lparr>cs_status := Con_Approved\<rparr>"])
       (simp add: demo_reviews_def approval_gate_def consensus_new_def)
qed

theorem approval_of_unreviewed_artifact_witness:
  "\<exists>rs s. (\<forall>r \<in> set rs. rv_artifact_id r = ''b'') \<and> advance (consensus_new demo_artifact) rs None = Inr s \<and>
      cs_artifact s = demo_artifact \<and> approval_gate (cs_status s)"
  using approval_of_unreviewed_artifact [rule_format, of demo_artifact "''b''"] by (simp add: demo_artifact_def)

lemma stage_loop_nth:
  "i < length ps \<Longrightarrow> stage_loop cr k ps ! i = stage_of cr (k + i) (fst (ps ! i)) (snd (ps ! i))"
  by (induction cr k ps arbitrary: i rule: stage_loop.induct) (auto simp: nth_Cons split: nat.splits)

lemma length_stage_loop [simp]: "length (stage_loop cr k ps) = length ps"
  by (induction cr k ps rule: stage_loop.induct) auto

text \<open>
  The stage writer omits nothing.  It refuses exactly when the counts differ; otherwise
  file \<open>i\<close> is the stage of artifact \<open>i\<close> under kind \<open>i\<close>, carrying the digest of that
  artifact's content, there is one more file for the pending approval, and the index has one
  line per stage.
\<close>

lemma stage_writer_total:
  "((\<exists>e. stage_writer cr artifacts kinds = Inl e) \<longleftrightarrow> length artifacts \<noteq> length kinds) \<and>
   (stage_writer cr artifacts kinds = Inr (files, index) \<longrightarrow>
      length files = length artifacts + 1 \<and> last files = pending_file cr artifacts \<and>
      index = join_lines (map index_line (butlast files)) \<and>
      (\<forall>i < length artifacts. files ! i = stage_of cr i (artifacts ! i) (kinds ! i)))"
proof (intro conjI impI)
  show "(\<exists>e. stage_writer cr artifacts kinds = Inl e) \<longleftrightarrow> length artifacts \<noteq> length kinds"
    by (simp add: stage_writer_def Let_def)
next
  assume "stage_writer cr artifacts kinds = Inr (files, index)"
  then have len: "length artifacts = length kinds"
    and f: "files = stage_loop cr 0 (zip artifacts kinds) @ [pending_file cr artifacts]"
    and ix: "index = join_lines (map index_line (stage_loop cr 0 (zip artifacts kinds)))"
    by (auto simp: stage_writer_def Let_def split: if_splits)
  show "length files = length artifacts + 1" "last files = pending_file cr artifacts"
    "index = join_lines (map index_line (butlast files))"
    by (simp_all add: f ix len)
  show "\<forall>i < length artifacts. files ! i = stage_of cr i (artifacts ! i) (kinds ! i)"
    using stage_loop_nth [of _ "zip artifacts kinds" cr 0] by (simp add: f nth_append len)
qed

lemma stage_writer_total_witness:
  "\<exists>files index. stage_writer const_crypto [demo_artifact] [''plan''] = Inr (files, index) \<and> length files = 2"
proof -
  obtain files index where eq: "stage_writer const_crypto [demo_artifact] [''plan''] = Inr (files, index)"
    by (simp add: stage_writer_def Let_def)
  with stage_writer_total [of const_crypto "[demo_artifact]" "[''plan'']" files index] show ?thesis by auto
qed

end
