(* ===== verification/Hostcall.thy ===== *)
theory Hostcall
  imports Audit_Link
begin

text \<open>
  The hostcall boundary of the engine SDK: capability postures
  (\<^verbatim>\<open>crates/brain-engine-sdk/src/capability.rs\<close>), the extension policy (\<^verbatim>\<open>trust.rs\<close>) and the
  four-step dispatch (\<^verbatim>\<open>hostcall.rs\<close>).

  The host behind the boundary is a parameter: \<open>audit\<close> says, given what happened so far and
  the row to write, whether the audit write succeeds (\<^term>\<open>None\<close>) or with which message it
  fails.  Handlers and the interceptor are functions stored in the context.  The context
  carries a ghost field \<open>hc_trace\<close>, the sequence of audit writes that landed and handler
  calls that were made, so that order can be stated.
\<close>

subsection \<open>Capability postures\<close>

datatype capability = Cap_Safe | Cap_Standard | Cap_Permissive

fun capability_as_str :: "capability \<Rightarrow> str" where
  "capability_as_str Cap_Safe = ''safe''"
| "capability_as_str Cap_Standard = ''standard''"
| "capability_as_str Cap_Permissive = ''permissive''"

datatype op_class = Op_ReadState | Op_WriteState | Op_ExecTool | Op_FilesystemWrite | Op_ProcessSpawn

fun op_class_as_str :: "op_class \<Rightarrow> str" where
  "op_class_as_str Op_ReadState = ''read_state''"
| "op_class_as_str Op_WriteState = ''write_state''"
| "op_class_as_str Op_ExecTool = ''exec_tool''"
| "op_class_as_str Op_FilesystemWrite = ''fs_write''"
| "op_class_as_str Op_ProcessSpawn = ''process_spawn''"

fun cap_allows :: "capability \<Rightarrow> op_class \<Rightarrow> bool" where
  "cap_allows Cap_Safe c = (c = Op_ReadState)"
| "cap_allows Cap_Standard c = (c = Op_ReadState \<or> c = Op_WriteState \<or> c = Op_ExecTool)"
| "cap_allows Cap_Permissive c =
     (c = Op_ReadState \<or> c = Op_WriteState \<or> c = Op_ExecTool \<or> c = Op_FilesystemWrite \<or> c = Op_ProcessSpawn)"

record audit_row =
  au_actor :: str
  au_target :: str
  au_status :: audit_status
  au_detail :: str

datatype hc_event = Ev_Audit audit_row | Ev_Handler str str str

type_synonym audit_host = "hc_event list \<Rightarrow> audit_row \<Rightarrow> str option"

definition checked_dispatch ::
    "audit_host \<Rightarrow> hc_event list \<Rightarrow> capability \<Rightarrow> op_class \<Rightarrow> str \<Rightarrow> bool \<times> hc_event list" where
  "checked_dispatch audit trace posture cls actor =
     (let allowed = cap_allows posture cls;
          row = \<lparr>au_actor = actor, au_target = op_class_as_str cls,
                 au_status = (if allowed then AS_Ok else AS_Denied), au_detail = capability_as_str posture\<rparr>
      in case audit trace row of
           Some e \<Rightarrow> (False, trace)
         | None \<Rightarrow> (allowed, trace @ [Ev_Audit row]))"

subsection \<open>The extension policy\<close>

datatype policy_mode = Mode_Strict | Mode_Prompt | Mode_Permissive

fun policy_mode_as_str :: "policy_mode \<Rightarrow> str" where
  "policy_mode_as_str Mode_Strict = ''strict''"
| "policy_mode_as_str Mode_Prompt = ''prompt''"
| "policy_mode_as_str Mode_Permissive = ''permissive''"

datatype trust_decision = Td_Allowed | Td_Prompt | Td_Denied

record engine_override =
  eo_allow_caps :: "str list"
  eo_deny_caps :: "str list"

record extension_policy =
  ep_mode :: policy_mode
  ep_max_memory_mb :: u32
  ep_default_caps :: "str list"
  ep_deny_caps :: "str list"
  ep_per_engine :: "str \<rightharpoonup> engine_override"

definition policy_safe :: extension_policy where
  "policy_safe = \<lparr>ep_mode = Mode_Strict, ep_max_memory_mb = 256, ep_default_caps = [''read'', ''write''],
     ep_deny_caps = [''exec'', ''env'', ''http''], ep_per_engine = Map.empty\<rparr>"

definition policy_standard :: extension_policy where
  "policy_standard = \<lparr>ep_mode = Mode_Prompt, ep_max_memory_mb = 256,
     ep_default_caps = [''read'', ''write'', ''http'', ''events'', ''session''],
     ep_deny_caps = [''exec'', ''env''], ep_per_engine = Map.empty\<rparr>"

definition policy_permissive :: extension_policy where
  "policy_permissive = \<lparr>ep_mode = Mode_Permissive, ep_max_memory_mb = 256, ep_default_caps = [],
     ep_deny_caps = [], ep_per_engine = Map.empty\<rparr>"

definition policy_default :: extension_policy where
  "policy_default = policy_standard"

definition decide :: "extension_policy \<Rightarrow> str \<Rightarrow> str \<Rightarrow> trust_decision" where
  "decide p engine cap =
     (let override_for = ep_per_engine p engine in
      if (case override_for of None \<Rightarrow> False | Some o' \<Rightarrow> cap \<in> set (eo_deny_caps o')) \<or> cap \<in> set (ep_deny_caps p)
      then Td_Denied
      else if (case override_for of None \<Rightarrow> False | Some o' \<Rightarrow> cap \<in> set (eo_allow_caps o')) \<or> cap \<in> set (ep_default_caps p)
      then Td_Allowed
      else case ep_mode p of
             Mode_Strict \<Rightarrow> Td_Denied
           | Mode_Prompt \<Rightarrow> Td_Prompt
           | Mode_Permissive \<Rightarrow> Td_Allowed)"

definition policy_allows :: "extension_policy \<Rightarrow> str \<Rightarrow> str \<Rightarrow> bool" where
  "policy_allows p engine cap = (decide p engine cap = Td_Allowed)"

datatype host_call_kind = HC_Tool | HC_Exec | HC_Http | HC_Session | HC_Events | HC_Ui | HC_Log

definition hck_parse :: "str \<Rightarrow> str + host_call_kind" where
  "hck_parse s =
     (if s = ''tool'' then Inr HC_Tool
      else if s = ''exec'' then Inr HC_Exec
      else if s = ''http'' then Inr HC_Http
      else if s = ''session'' then Inr HC_Session
      else if s = ''events'' then Inr HC_Events
      else if s = ''ui'' then Inr HC_Ui
      else if s = ''log'' then Inr HC_Log
      else Inl s)"

fun hck_as_str :: "host_call_kind \<Rightarrow> str" where
  "hck_as_str HC_Tool = ''tool''"
| "hck_as_str HC_Exec = ''exec''"
| "hck_as_str HC_Http = ''http''"
| "hck_as_str HC_Session = ''session''"
| "hck_as_str HC_Events = ''events''"
| "hck_as_str HC_Ui = ''ui''"
| "hck_as_str HC_Log = ''log''"

fun required_capability :: "host_call_kind \<Rightarrow> str" where
  "required_capability HC_Tool = ''tools''"
| "required_capability HC_Exec = ''exec''"
| "required_capability HC_Http = ''http''"
| "required_capability HC_Session = ''session''"
| "required_capability HC_Events = ''events''"
| "required_capability HC_Ui = ''ui''"
| "required_capability HC_Log = ''log''"

subsection \<open>Canonicalization\<close>

definition MAX_BODY_BYTES :: nat where
  "MAX_BODY_BYTES = 256 * 1024"

definition MAX_NAME_BYTES :: nat where
  "MAX_NAME_BYTES = 256"

datatype dispatch_error =
    DE_Denied str | DE_InvalidPayload str | DE_BudgetExceeded | DE_Intercepted str | DE_Internal str

definition backtick :: str where
  "backtick = [CHR 0x60]"

definition unknown_kind_error :: "str \<Rightarrow> dispatch_error" where
  "unknown_kind_error s = DE_Denied (''unknown hostcall kind '' @ backtick @ s @ backtick)"

record host_call_payload =
  hp_kind :: host_call_kind
  hp_name :: str
  hp_body :: str

text \<open>
  \<^verbatim>\<open>char::is_control\<close> holds for U+0000 to U+001F, U+007F and U+0080 to U+009F; the last range
  is a lead byte 194 followed by 128 to 159.
\<close>

fun has_control :: "str \<Rightarrow> bool" where
  "has_control [] = False"
| "has_control (c # s) =
     ((of_char c :: nat) < 32 \<or> (of_char c :: nat) = 127 \<or>
      ((of_char c :: nat) = 194 \<and>
       (case s of [] \<Rightarrow> False | d # _ \<Rightarrow> 128 \<le> (of_char d :: nat) \<and> (of_char d :: nat) \<le> 159)) \<or>
      has_control s)"

definition canonicalize :: "str \<Rightarrow> str \<Rightarrow> str \<Rightarrow> dispatch_error + host_call_payload" where
  "canonicalize kind_wire name body =
     (case hck_parse kind_wire of
        Inl s \<Rightarrow> Inl (unknown_kind_error s)
      | Inr kind \<Rightarrow>
          if name = [] \<or> length name > MAX_NAME_BYTES
          then Inl (DE_InvalidPayload ''name out of bounds'')
          else if length body > MAX_BODY_BYTES
          then Inl (DE_InvalidPayload ''body exceeds MAX_BODY_BYTES'')
          else if has_control name \<or> CHR 0x00 \<in> set body
          then Inl (DE_InvalidPayload ''control characters refused'')
          else Inr \<lparr>hp_kind = kind, hp_name = name, hp_body = body\<rparr>)"

subsection \<open>Dispatch\<close>

record time_budget =
  tb_manager_secs :: "u64 option"
  tb_op_secs :: "u64 option"

definition budget_default :: time_budget where
  "budget_default = \<lparr>tb_manager_secs = Some 30, tb_op_secs = None\<rparr>"

definition effective_timeout :: "time_budget \<Rightarrow> u64 option" where
  "effective_timeout b =
     (case (tb_manager_secs b, tb_op_secs b) of
        (Some x, Some y) \<Rightarrow> Some (min x y)
      | (Some x, None) \<Rightarrow> Some x
      | (None, Some y) \<Rightarrow> Some y
      | (None, None) \<Rightarrow> None)"

record host_call_context =
  hc_policy :: extension_policy
  hc_engine :: str
  hc_budget :: time_budget
  hc_handlers :: "str \<rightharpoonup> (str \<Rightarrow> str \<Rightarrow> str + str)"
  hc_interceptor :: "(host_call_payload \<Rightarrow> (str + str) option) option"
  hc_counters :: "str \<times> str \<rightharpoonup> u64"
  hc_trace :: "hc_event list"

definition context_new :: "extension_policy \<Rightarrow> str \<Rightarrow> host_call_context" where
  "context_new policy engine =
     \<lparr>hc_policy = policy, hc_engine = engine, hc_budget = budget_default, hc_handlers = Map.empty,
      hc_interceptor = None, hc_counters = Map.empty, hc_trace = []\<rparr>"

definition set_handler :: "host_call_context \<Rightarrow> host_call_kind \<Rightarrow> (str \<Rightarrow> str \<Rightarrow> str + str) \<Rightarrow> host_call_context" where
  "set_handler ctx kind f = ctx\<lparr>hc_handlers := (hc_handlers ctx)(hck_as_str kind \<mapsto> f)\<rparr>"

definition has_handler :: "host_call_context \<Rightarrow> host_call_kind \<Rightarrow> bool" where
  "has_handler ctx kind = (hc_handlers ctx (hck_as_str kind) \<noteq> None)"

definition set_interceptor :: "host_call_context \<Rightarrow> (host_call_payload \<Rightarrow> (str + str) option) \<Rightarrow> host_call_context" where
  "set_interceptor ctx f = ctx\<lparr>hc_interceptor := Some f\<rparr>"

definition tally :: "host_call_context \<Rightarrow> host_call_payload \<Rightarrow> host_call_context" where
  "tally ctx p =
     (let k = (hp_name p, hck_as_str (hp_kind p));
          n = (case hc_counters ctx k of None \<Rightarrow> 0 | Some n \<Rightarrow> n)
      in ctx\<lparr>hc_counters := (hc_counters ctx)(k \<mapsto> n + 1)\<rparr>)"

text \<open>Steps 2 to 4, on a canonical payload.\<close>

definition dispatch_payload ::
    "audit_host \<Rightarrow> host_call_context \<Rightarrow> host_call_payload \<Rightarrow> (dispatch_error + str) \<times> host_call_context" where
  "dispatch_payload audit ctx p =
     (if (case effective_timeout (hc_budget ctx) of None \<Rightarrow> True | Some d \<Rightarrow> d = 0)
      then (Inl DE_BudgetExceeded, ctx)
      else
        let ctx1 = tally ctx p;
            cap = required_capability (hp_kind p);
            target = hck_as_str (hp_kind p) @ ''/'' @ hp_name p;
            (status, result) =
              (case decide (hc_policy ctx) (hc_engine ctx) cap of
                 Td_Allowed \<Rightarrow> (AS_Ok, None)
               | Td_Prompt \<Rightarrow> (AS_Denied, Some (DE_Denied (backtick @ cap @ backtick @ '' requires consent (prompt posture)'')))
               | Td_Denied \<Rightarrow> (AS_Denied, Some (DE_Denied (''capability '' @ backtick @ cap @ backtick @ '' denied''))));
            row = \<lparr>au_actor = hc_engine ctx, au_target = target, au_status = status, au_detail = cap\<rparr>
        in case audit (hc_trace ctx1) row of
             Some e \<Rightarrow> (Inl (DE_Internal e), ctx1)
           | None \<Rightarrow>
               let ctx2 = ctx1\<lparr>hc_trace := hc_trace ctx1 @ [Ev_Audit row]\<rparr> in
               (case result of
                  Some err \<Rightarrow> (Inl err, ctx2)
                | None \<Rightarrow>
                    (case hc_handlers ctx2 (hck_as_str (hp_kind p)) of
                       None \<Rightarrow> (Inl (DE_Internal (''no handler registered for '' @ backtick @
                                   hck_as_str (hp_kind p) @ backtick)), ctx2)
                     | Some h \<Rightarrow>
                         (case h (hp_name p) (hp_body p) of Inl e \<Rightarrow> Inl (DE_Internal e) | Inr r \<Rightarrow> Inr r,
                          ctx2\<lparr>hc_trace := hc_trace ctx2 @
                                 [Ev_Handler (hck_as_str (hp_kind p)) (hp_name p) (hp_body p)]\<rparr>))))"

definition dispatch ::
    "audit_host \<Rightarrow> host_call_context \<Rightarrow> str \<Rightarrow> str \<Rightarrow> str \<Rightarrow> (dispatch_error + str) \<times> host_call_context" where
  "dispatch audit ctx kind_wire name body =
     (case canonicalize kind_wire name body of
        Inl e \<Rightarrow> (Inl e, ctx)
      | Inr p \<Rightarrow>
          (case hc_interceptor ctx of
             None \<Rightarrow> dispatch_payload audit ctx p
           | Some f \<Rightarrow>
               (case f p of
                  Some (Inl e) \<Rightarrow> (Inl (DE_Intercepted e), ctx)
                | Some (Inr r) \<Rightarrow> (Inr r, ctx)
                | None \<Rightarrow> dispatch_payload audit ctx p)))"

subsection \<open>Exec mediation\<close>

definition FORBIDDEN :: "str list" where
  "FORBIDDEN = [''rm -rf /'', ''mkfs'', '':(){ :|:& };:'', ''dd if=/dev/zero'', ''> /dev/sda'',
     ''chmod -r 777 /'', ''shutdown'', ''reboot'', ''| sh'', ''| bash'', ''| zsh'', ''|sh'', ''|bash'',
     ''base64 -d'', ''base64 --decode'']"

definition exec_mediation :: "str \<Rightarrow> str + unit" where
  "exec_mediation command =
     (let lower = to_ascii_lowercase command in
      case List.find (\<lambda>pat. str_contains lower pat) FORBIDDEN of
        Some pat \<Rightarrow> Inl (''dangerous command refused: contains '' @ backtick @ pat @ backtick)
      | None \<Rightarrow> Inr ())"

subsection \<open>Vocabulary\<close>

definition HCK_ALL :: "host_call_kind list" where
  "HCK_ALL = [HC_Tool, HC_Exec, HC_Http, HC_Session, HC_Events, HC_Ui, HC_Log]"

interpretation hck_words: closed_vocabulary hck_as_str "\<lambda>s. sum_to_option (hck_parse s)" HCK_ALL
proof unfold_locales
  fix x show "sum_to_option (hck_parse (hck_as_str x)) = Some x" by (cases x) (simp_all add: hck_parse_def)
next
  fix s x show "sum_to_option (hck_parse s) = Some x \<Longrightarrow> hck_as_str x = s"
    by (auto simp: hck_parse_def split: if_splits)
next
  fix x show "x \<in> set HCK_ALL" by (cases x) (simp_all add: HCK_ALL_def)
next
  show "distinct HCK_ALL" by (simp add: HCK_ALL_def)
qed

subsection \<open>Policy precedence\<close>

definition denied_by :: "extension_policy \<Rightarrow> str \<Rightarrow> str \<Rightarrow> bool" where
  "denied_by p engine cap \<longleftrightarrow> cap \<in> set (ep_deny_caps p) \<or>
     (\<exists>ov. ep_per_engine p engine = Some ov \<and> cap \<in> set (eo_deny_caps ov))"

definition allowed_by :: "extension_policy \<Rightarrow> str \<Rightarrow> str \<Rightarrow> bool" where
  "allowed_by p engine cap \<longleftrightarrow> cap \<in> set (ep_default_caps p) \<or>
     (\<exists>ov. ep_per_engine p engine = Some ov \<and> cap \<in> set (eo_allow_caps ov))"

lemma decide_eq:
  "decide p engine cap =
     (if denied_by p engine cap then Td_Denied
      else if allowed_by p engine cap then Td_Allowed
      else case ep_mode p of Mode_Strict \<Rightarrow> Td_Denied | Mode_Prompt \<Rightarrow> Td_Prompt | Mode_Permissive \<Rightarrow> Td_Allowed)"
  by (auto simp: decide_def Let_def denied_by_def allowed_by_def split: option.splits)

lemma cap_allows_mono:
  "cap_allows Cap_Safe c \<Longrightarrow> cap_allows Cap_Standard c" "cap_allows Cap_Standard c \<Longrightarrow> cap_allows Cap_Permissive c"
  by auto

lemma canonicalize_ok:
  "canonicalize kind_wire name body = Inr p \<longleftrightarrow>
     kind_wire = hck_as_str (hp_kind p) \<and> name = hp_name p \<and> body = hp_body p \<and>
     name \<noteq> [] \<and> length name \<le> MAX_NAME_BYTES \<and> length body \<le> MAX_BODY_BYTES \<and>
     \<not> has_control name \<and> CHR 0x00 \<notin> set body"
proof -
  have parse: "hck_parse kind_wire = Inr k \<longleftrightarrow> kind_wire = hck_as_str k" for k
    using hck_words.of_wire_iff [of kind_wire k] by (cases "hck_parse kind_wire") auto
  show ?thesis
  proof (cases "hck_parse kind_wire")
    case (Inl e)
    with parse [of "hp_kind p"] show ?thesis by (auto simp: canonicalize_def)
  next
    case (Inr k)
    with parse [of k] have kw: "kind_wire = hck_as_str k" by simp
    show ?thesis
      unfolding canonicalize_def Inr sum.case
      using hck_words.as_wire_inj [of k "hp_kind p"] kw by (cases p) (auto simp: not_less)
  qed
qed

subsection \<open>What one dispatch leaves behind\<close>

definition decision_row :: "host_call_context \<Rightarrow> host_call_payload \<Rightarrow> audit_row" where
  "decision_row ctx p =
     \<lparr>au_actor = hc_engine ctx, au_target = hck_as_str (hp_kind p) @ ''/'' @ hp_name p,
      au_status = (if decide (hc_policy ctx) (hc_engine ctx) (required_capability (hp_kind p)) = Td_Allowed
                   then AS_Ok else AS_Denied),
      au_detail = required_capability (hp_kind p)\<rparr>"

lemma tally_fields [simp]:
  "hc_trace (tally ctx p) = hc_trace ctx" "hc_handlers (tally ctx p) = hc_handlers ctx"
  "hc_policy (tally ctx p) = hc_policy ctx" "hc_engine (tally ctx p) = hc_engine ctx"
  by (simp_all add: tally_def Let_def)

definition window_open :: "host_call_context \<Rightarrow> bool" where
  "window_open ctx \<longleftrightarrow> (\<exists>d. effective_timeout (hc_budget ctx) = Some d \<and> 0 < d)"

lemma dispatch_payload_eq:
  "dispatch_payload audit ctx p =
     (if \<not> window_open ctx then (Inl DE_BudgetExceeded, ctx)
      else case audit (hc_trace ctx) (decision_row ctx p) of
        Some e \<Rightarrow> (Inl (DE_Internal e), tally ctx p)
      | None \<Rightarrow>
          let ctx2 = (tally ctx p)\<lparr>hc_trace := hc_trace ctx @ [Ev_Audit (decision_row ctx p)]\<rparr>;
              cap = required_capability (hp_kind p)
          in case decide (hc_policy ctx) (hc_engine ctx) cap of
               Td_Prompt \<Rightarrow> (Inl (DE_Denied (backtick @ cap @ backtick @ '' requires consent (prompt posture)'')), ctx2)
             | Td_Denied \<Rightarrow> (Inl (DE_Denied (''capability '' @ backtick @ cap @ backtick @ '' denied'')), ctx2)
             | Td_Allowed \<Rightarrow>
                 (case hc_handlers ctx (hck_as_str (hp_kind p)) of
                    None \<Rightarrow> (Inl (DE_Internal (''no handler registered for '' @ backtick @
                               hck_as_str (hp_kind p) @ backtick)), ctx2)
                  | Some h \<Rightarrow>
                      (case h (hp_name p) (hp_body p) of Inl e \<Rightarrow> Inl (DE_Internal e) | Inr r \<Rightarrow> Inr r,
                       ctx2\<lparr>hc_trace := hc_trace ctx @ [Ev_Audit (decision_row ctx p),
                              Ev_Handler (hck_as_str (hp_kind p)) (hp_name p) (hp_body p)]\<rparr>)))"
proof -
  have w: "(case effective_timeout (hc_budget ctx) of None \<Rightarrow> True | Some d \<Rightarrow> d = 0) \<longleftrightarrow> \<not> window_open ctx"
    by (auto simp: window_open_def word_gt_0 split: option.splits)
  show ?thesis
    unfolding dispatch_payload_def w
    by (auto simp: Let_def decision_row_def split: trust_decision.splits option.splits)
qed


subsection \<open>Properties\<close>

text \<open>
  C17. No handler runs before its capability is granted and the grant is on record.  One
  dispatch, by any context and over any host, appends to the trace nothing, one audit row,
  or one audit row followed by one handler call; a handler call happens only for a payload
  that passed canonicalization, with the policy's answer \<^verbatim>\<open>Allowed\<close> for the capability the
  kind requires, right after the \<^verbatim>\<open>ok\<close> row for exactly that call was written.
\<close>

theorem handler_only_after_grant:
  "\<exists>evs. hc_trace (snd (dispatch audit ctx kind_wire name body)) = hc_trace ctx @ evs \<and>
     (evs = [] \<or> (\<exists>p. canonicalize kind_wire name body = Inr p \<and>
        (evs = [Ev_Audit (decision_row ctx p)] \<or>
         evs = [Ev_Audit (decision_row ctx p), Ev_Handler (hck_as_str (hp_kind p)) name body] \<and>
         decide (hc_policy ctx) (hc_engine ctx) (required_capability (hp_kind p)) = Td_Allowed \<and>
         au_status (decision_row ctx p) = AS_Ok)))"
proof (cases "canonicalize kind_wire name body")
  case (Inl e)
  then show ?thesis by (simp add: dispatch_def)
next
  case (Inr p)
  then have nb: "hp_name p = name" "hp_body p = body" by (auto simp: canonicalize_ok)
  have "\<exists>evs. hc_trace (snd (dispatch_payload audit ctx p)) = hc_trace ctx @ evs \<and>
        (evs = [] \<or> evs = [Ev_Audit (decision_row ctx p)] \<or>
         evs = [Ev_Audit (decision_row ctx p), Ev_Handler (hck_as_str (hp_kind p)) name body] \<and>
         decide (hc_policy ctx) (hc_engine ctx) (required_capability (hp_kind p)) = Td_Allowed \<and>
         au_status (decision_row ctx p) = AS_Ok)"
    unfolding dispatch_payload_eq
    by (auto simp: Let_def nb decision_row_def split: option.splits trust_decision.splits)
  with Inr show ?thesis
    by (auto simp: dispatch_def split: option.splits sum.splits)
qed

text \<open>
  Deny outranks allow.  The policy's answer is \<^verbatim>\<open>Denied\<close> whenever the engine's own or the
  global list denies the capability, whatever any allow list or the mode says; otherwise
  \<^verbatim>\<open>Allowed\<close> when either list allows it; otherwise the mode's fallback.  In particular the
  safe and the standard profile never allow \<^verbatim>\<open>exec\<close>, whatever allow list is added to them.
\<close>

lemma decide_precedence:
  "decide p engine cap =
     (if denied_by p engine cap then Td_Denied
      else if allowed_by p engine cap then Td_Allowed
      else case ep_mode p of Mode_Strict \<Rightarrow> Td_Denied | Mode_Prompt \<Rightarrow> Td_Prompt | Mode_Permissive \<Rightarrow> Td_Allowed) \<and>
   decide (policy_safe\<lparr>ep_per_engine := ov, ep_default_caps := extra\<rparr>) engine ''exec'' = Td_Denied \<and>
   decide (policy_standard\<lparr>ep_per_engine := ov, ep_default_caps := extra\<rparr>) engine ''exec'' = Td_Denied"
  by (simp add: decide_eq denied_by_def policy_safe_def policy_standard_def)

text \<open>
  Two ways around the record.  An unknown kind is denied without any audit row, and an
  interceptor's answer is returned without consulting the policy, without an audit row and
  without a tally, even for a capability the policy denies.
\<close>

lemma dispatch_unrecorded:
  assumes "kind_wire \<notin> hck_as_str ` set HCK_ALL"
    and "canonicalize wire2 name2 body2 = Inr p" and "f p = Some (Inr out)"
  shows "dispatch audit ctx kind_wire name body = (Inl (unknown_kind_error kind_wire), ctx) \<and>
         dispatch audit (set_interceptor ctx f) wire2 name2 body2 = (Inr out, set_interceptor ctx f)"
proof -
  have "sum_to_option (hck_parse kind_wire) = None"
    using assms(1) hck_words.of_wire_None_iff by blast
  then have "hck_parse kind_wire = Inl kind_wire"
    by (auto simp: hck_parse_def split: if_splits)
  with assms show ?thesis
    by (simp add: dispatch_def canonicalize_def [of kind_wire] set_interceptor_def)
qed

lemma dispatch_unrecorded_example:
  "dispatch (\<lambda>_ _. None) (set_interceptor (context_new policy_safe ''e'') (\<lambda>_. Some (Inr ''x''))) ''exec'' ''n'' ''b'' =
     (Inr ''x'', set_interceptor (context_new policy_safe ''e'') (\<lambda>_. Some (Inr ''x'')))"
proof -
  have c: "canonicalize ''exec'' ''n'' ''b'' = Inr \<lparr>hp_kind = HC_Exec, hp_name = ''n'', hp_body = ''b''\<rparr>"
    unfolding canonicalize_ok by (simp add: MAX_NAME_BYTES_def MAX_BODY_BYTES_def)
  have "''nope'' \<notin> hck_as_str ` set HCK_ALL" by (simp add: HCK_ALL_def)
  from dispatch_unrecorded [OF this c, of "\<lambda>_. Some (Inr ''x'')" "''x''"] show ?thesis by simp
qed

lemma find_Some_ex: "(\<exists>x. List.find P xs = Some x) \<longleftrightarrow> (\<exists>x \<in> set xs. P x)"
  by (induction xs) auto

lemma exec_mediation_refuses: "(\<exists>e. exec_mediation c = Inl e) \<longleftrightarrow>
    (\<exists>pat \<in> set FORBIDDEN. sublist pat (to_ascii_lowercase c))"
proof -
  have "(\<exists>e. exec_mediation c = Inl e) \<longleftrightarrow> (\<exists>x. List.find (str_contains (to_ascii_lowercase c)) FORBIDDEN = Some x)"
    by (simp add: exec_mediation_def Let_def split: option.splits)
  then show ?thesis by (simp add: find_Some_ex str_contains_def)
qed

lemma lowercase_append [simp]: "to_ascii_lowercase (a @ b) = to_ascii_lowercase a @ to_ascii_lowercase b"
  by (simp add: to_ascii_lowercase_def)

lemma checked_dispatch_iff:
  "fst (checked_dispatch audit trace posture cls actor) \<longleftrightarrow>
     cap_allows posture cls \<and>
     audit trace \<lparr>au_actor = actor, au_target = op_class_as_str cls, au_status = AS_Ok,
                  au_detail = capability_as_str posture\<rparr> = None"
  by (auto simp: checked_dispatch_def Let_def split: option.splits)

text \<open>
  The exec screen ignores case and position, and postures only widen.  A command is
  refused exactly when its ASCII-lowercased text contains one of the fifteen patterns, so
  whatever surrounds a refused command does not save it; a posture check passes exactly when
  the posture allows the class and the \<^verbatim>\<open>ok\<close> row was written, and what a posture allows the
  next wider one allows.
\<close>

lemma exec_screen:
  "((\<exists>e. exec_mediation c = Inl e) \<longleftrightarrow> (\<exists>pat \<in> set FORBIDDEN. sublist pat (to_ascii_lowercase c))) \<and>
   ((\<exists>e. exec_mediation c = Inl e) \<longrightarrow> (\<exists>e. exec_mediation (pre @ c @ post) = Inl e)) \<and>
   (fst (checked_dispatch audit trace posture cls actor) \<longleftrightarrow>
      cap_allows posture cls \<and>
      audit trace \<lparr>au_actor = actor, au_target = op_class_as_str cls, au_status = AS_Ok,
                   au_detail = capability_as_str posture\<rparr> = None) \<and>
   (cap_allows Cap_Safe cls \<longrightarrow> cap_allows Cap_Standard cls) \<and>
   (cap_allows Cap_Standard cls \<longrightarrow> cap_allows Cap_Permissive cls)"
proof -
  have "(\<exists>pat \<in> set FORBIDDEN. sublist pat (to_ascii_lowercase c)) \<Longrightarrow>
      (\<exists>pat \<in> set FORBIDDEN. sublist pat (to_ascii_lowercase (pre @ c @ post)))"
    using sublist_appendI sublist_order.order_trans by fastforce
  then show ?thesis
    using cap_allows_mono checked_dispatch_iff exec_mediation_refuses by blast
qed

end
