(* ===== verification/Harness.thy ===== *)
theory Harness
  imports Audit_Link
begin

text \<open>
  The agent harness (\<^verbatim>\<open>crates/brain-engine-sdk/src/harness.rs\<close>): phases, turn tokens, the
  immutable turn snapshot, the queue of pending session writes and the single settlement
  path.

  The host (\<^verbatim>\<open>WorkflowHost\<close>) is a parameter: for each call it acknowledges, refuses with an
  error, or unwinds.  The harness's mutex is modelled by its poison flag: an unwind while the
  lock is held sets it, and every checked lock then fails.  The ghost field \<open>hs_tape\<close> records
  the host calls that were acknowledged, in order; \<open>hs_ran\<close> the deferred callbacks that were
  run.  A callback is an identifier; \<open>panics\<close> says which ones unwind.  What a callback does
  to the harness by calling it again is a further step of its own.
\<close>

subsection \<open>Definitions\<close>

datatype h_phase = Ph_Idle | Ph_Running | Ph_Compact | Ph_Failed

fun h_phase_as_str :: "h_phase \<Rightarrow> str" where
  "h_phase_as_str Ph_Idle = ''idle''"
| "h_phase_as_str Ph_Running = ''running''"
| "h_phase_as_str Ph_Compact = ''compact''"
| "h_phase_as_str Ph_Failed = ''failed''"

datatype harness_error =
    HE_PhaseBusy str h_phase | HE_PhaseUnavailable str h_phase | HE_LaneNotMain str | HE_Host str | HE_Unavailable

datatype host_error = HO_Stale i64 | HO_Busy | HO_NotFound | HO_Internal str | HO_SettlementRefused

fun host_error_str :: "host_error \<Rightarrow> str" where
  "host_error_str (HO_Stale n) = ''stale revision (actual '' @ show_int n @ '')''"
| "host_error_str HO_Busy = ''host busy''"
| "host_error_str HO_NotFound = ''not found''"
| "host_error_str (HO_Internal m) = ''internal: '' @ m"
| "host_error_str HO_SettlementRefused = ''settlement refused''"

record turn_snapshot =
  ts_model :: str
  ts_system_prompt :: str
  ts_tools :: "str list"
  ts_resources :: "str list"

fun join_comma :: "str list \<Rightarrow> str" where
  "join_comma [] = []"
| "join_comma [t] = t"
| "join_comma (t # u # us) = t @ '', '' @ join_comma (u # us)"

definition snapshot_prompt :: "turn_snapshot \<Rightarrow> str" where
  "snapshot_prompt s =
     ts_system_prompt s @
     (if ts_tools s \<noteq> [] then [CHR 0x0A, CHR 0x0A] @ ''tools: '' @ join_comma (ts_tools s) else [])"

record entry_without_id =
  en_topic :: str
  en_payload_json :: str
  en_idempotency_key :: str

record turn_token =
  tk_harness :: nat
  tk_generation :: u64

record h_config =
  cf_model :: str
  cf_system_prompt :: str
  cf_tools :: "str list"
  cf_resources :: "str list"

definition config_snapshot :: "h_config \<Rightarrow> turn_snapshot" where
  "config_snapshot c = \<lparr>ts_model = cf_model c, ts_system_prompt = cf_system_prompt c,
     ts_tools = cf_tools c, ts_resources = cf_resources c\<rparr>"

datatype host_event =
    Delivered i64 str str str bool
  | Settled i64 audit_status str

record harness =
  hs_identity :: nat
  hs_panicked :: bool
  hs_poisoned :: bool
  hs_config :: h_config
  hs_phase :: h_phase
  hs_snapshot :: "turn_snapshot option"
  hs_pending :: "entry_without_id list"
  hs_follow_ups :: "str list"
  hs_deferred :: "nat list"
  hs_run_id :: i64
  hs_turn_token :: u64
  hs_tape :: "host_event list"
  hs_ran :: "nat list"

datatype 'a reply = Replied 'a | Refused host_error | Unwound

record workflow_host =
  wh_enqueue :: "host_event list \<Rightarrow> i64 \<Rightarrow> str \<Rightarrow> str \<Rightarrow> str \<Rightarrow> bool reply"
  wh_audit :: "host_event list \<Rightarrow> i64 \<Rightarrow> audit_status \<Rightarrow> str \<Rightarrow> unit reply"

datatype 'a outcome = Out_Ok 'a | Out_Err harness_error | Out_Unwind

definition harness_new :: "nat \<Rightarrow> str \<Rightarrow> str \<Rightarrow> harness" where
  "harness_new ident model system_prompt =
     \<lparr>hs_identity = ident, hs_panicked = False, hs_poisoned = False,
      hs_config = \<lparr>cf_model = model, cf_system_prompt = system_prompt, cf_tools = [], cf_resources = []\<rparr>,
      hs_phase = Ph_Idle, hs_snapshot = None, hs_pending = [], hs_follow_ups = [], hs_deferred = [],
      hs_run_id = 0, hs_turn_token = 0, hs_tape = [], hs_ran = []\<rparr>"

definition checked_lock :: "(harness \<Rightarrow> 'a outcome \<times> harness) \<Rightarrow> harness \<Rightarrow> 'a outcome \<times> harness" where
  "checked_lock body h =
     (if hs_poisoned h then (Out_Err HE_Unavailable, h)
      else case body h of
             (Out_Unwind, h') \<Rightarrow> (Out_Unwind, h'\<lparr>hs_poisoned := True\<rparr>)
           | (r, h') \<Rightarrow> (r, h'))"

definition require_running :: "harness \<Rightarrow> str \<Rightarrow> harness_error option" where
  "require_running h op = (if hs_phase h \<noteq> Ph_Running then Some (HE_PhaseUnavailable op (hs_phase h)) else None)"

definition enqueue_locked :: "workflow_host \<Rightarrow> str \<Rightarrow> str \<Rightarrow> str \<Rightarrow> harness \<Rightarrow> unit outcome \<times> harness" where
  "enqueue_locked host topic payload key h =
     (case wh_enqueue host (hs_tape h) (hs_run_id h) topic payload key of
        Replied created \<Rightarrow>
          (Out_Ok (), h\<lparr>hs_tape := hs_tape h @ [Delivered (hs_run_id h) topic payload key created]\<rparr>)
      | Refused e \<Rightarrow> (Out_Err (HE_Host (host_error_str e)), h)
      | Unwound \<Rightarrow> (Out_Unwind, h))"

fun drain_loop :: "workflow_host \<Rightarrow> entry_without_id list \<Rightarrow> harness \<Rightarrow> unit outcome \<times> harness" where
  "drain_loop host [] h = (Out_Ok (), h)"
| "drain_loop host (e # es) h =
     (case enqueue_locked host (en_topic e) (en_payload_json e) (en_idempotency_key e) h of
        (Out_Ok _, h') \<Rightarrow> drain_loop host es (h'\<lparr>hs_pending := es\<rparr>)
      | (r, h') \<Rightarrow> (r, h'))"

definition drain_locked :: "workflow_host \<Rightarrow> harness \<Rightarrow> unit outcome \<times> harness" where
  "drain_locked host h = drain_loop host (hs_pending h) h"

definition start_body :: "workflow_host \<Rightarrow> i64 \<Rightarrow> str \<Rightarrow> harness \<Rightarrow> (turn_snapshot \<times> turn_token) outcome \<times> harness" where
  "start_body host run_id op h =
     (if hs_phase h \<noteq> Ph_Idle then (Out_Err (HE_PhaseBusy op (hs_phase h)), h)
      else if hs_turn_token h = - 1 then (Out_Err (HE_Host ''turn_token_overflow''), h)
      else
        let generation = hs_turn_token h + 1;
            snap = config_snapshot (hs_config h);
            h1 = h\<lparr>hs_phase := Ph_Failed\<rparr>
        in case wh_audit host (hs_tape h) run_id AS_Ok ''RunStart'' of
             Refused e \<Rightarrow>
               (Out_Err (HE_Host (host_error_str e)),
                if e = HO_SettlementRefused \<or> e = HO_Busy \<or> e = HO_NotFound then h1\<lparr>hs_phase := Ph_Idle\<rparr> else h1)
           | Unwound \<Rightarrow> (Out_Unwind, h1)
           | Replied _ \<Rightarrow>
               (Out_Ok (snap, \<lparr>tk_harness = hs_identity h, tk_generation = generation\<rparr>),
                h1\<lparr>hs_run_id := run_id, hs_phase := Ph_Running, hs_snapshot := Some snap,
                   hs_turn_token := generation,
                   hs_tape := hs_tape h @ [Settled run_id AS_Ok ''RunStart'']\<rparr>))"

definition start_turn :: "workflow_host \<Rightarrow> i64 \<Rightarrow> harness \<Rightarrow> (turn_snapshot \<times> turn_token) outcome \<times> harness" where
  "start_turn host run_id = checked_lock (start_body host run_id ''start_turn'')"

definition start_run :: "workflow_host \<Rightarrow> i64 \<Rightarrow> harness \<Rightarrow> turn_snapshot outcome \<times> harness" where
  "start_run host run_id h =
     (case checked_lock (start_body host run_id ''start_run'') h of
        (Out_Ok (snap, _), h') \<Rightarrow> (Out_Ok snap, h')
      | (Out_Err e, h') \<Rightarrow> (Out_Err e, h')
      | (Out_Unwind, h') \<Rightarrow> (Out_Unwind, h'))"

definition token_ok :: "harness \<Rightarrow> turn_token \<Rightarrow> bool" where
  "token_ok h token \<longleftrightarrow>
     tk_harness token = hs_identity h \<and> tk_generation token = hs_turn_token h \<and> hs_phase h = Ph_Running"

definition verify_token :: "harness \<Rightarrow> turn_token \<Rightarrow> harness_error option" where
  "verify_token h token = (if token_ok h token then None else Some (HE_Host ''stale_turn_token''))"

definition message_end_body :: "workflow_host \<Rightarrow> str \<Rightarrow> str \<Rightarrow> harness \<Rightarrow> unit outcome \<times> harness" where
  "message_end_body host payload key h =
     (case enqueue_locked host ''message_end'' payload key h of
        (Out_Ok _, h') \<Rightarrow> drain_locked host h'
      | (r, h') \<Rightarrow> (r, h'))"

definition message_end_owned :: "workflow_host \<Rightarrow> turn_token \<Rightarrow> str \<Rightarrow> str \<Rightarrow> harness \<Rightarrow> unit outcome \<times> harness" where
  "message_end_owned host token payload key =
     checked_lock (\<lambda>h. case verify_token h token of
        Some e \<Rightarrow> (Out_Err e, h)
      | None \<Rightarrow> message_end_body host payload key h)"

definition message_end :: "workflow_host \<Rightarrow> str \<Rightarrow> str \<Rightarrow> harness \<Rightarrow> unit outcome \<times> harness" where
  "message_end host payload key =
     checked_lock (\<lambda>h. case require_running h ''message_end'' of
        Some e \<Rightarrow> (Out_Err e, h)
      | None \<Rightarrow> message_end_body host payload key h)"

definition save_point_body :: "workflow_host \<Rightarrow> harness \<Rightarrow> nat outcome \<times> harness" where
  "save_point_body host h =
     (case drain_locked host h of
        (Out_Ok _, h') \<Rightarrow> (Out_Ok (length (hs_pending h)), h')
      | (Out_Err e, h') \<Rightarrow> (Out_Err e, h')
      | (Out_Unwind, h') \<Rightarrow> (Out_Unwind, h'))"

definition save_point_owned :: "workflow_host \<Rightarrow> turn_token \<Rightarrow> harness \<Rightarrow> nat outcome \<times> harness" where
  "save_point_owned host token =
     checked_lock (\<lambda>h. case verify_token h token of
        Some e \<Rightarrow> (Out_Err e, h)
      | None \<Rightarrow> save_point_body host h)"

definition save_point :: "workflow_host \<Rightarrow> harness \<Rightarrow> nat outcome \<times> harness" where
  "save_point host =
     checked_lock (\<lambda>h. case require_running h ''save_point'' of
        Some e \<Rightarrow> (Out_Err e, h)
      | None \<Rightarrow> save_point_body host h)"

definition settle_under_lock ::
    "workflow_host \<Rightarrow> turn_token option \<Rightarrow> str \<Rightarrow> audit_status \<Rightarrow> harness \<Rightarrow> nat list outcome \<times> harness" where
  "settle_under_lock host token detail status h =
     (case (case token of None \<Rightarrow> None | Some t \<Rightarrow> verify_token h t) of
        Some e \<Rightarrow> (Out_Err e, h)
      | None \<Rightarrow>
          if hs_phase h = Ph_Idle then (Out_Ok [], h)
          else case require_running h ''settle'' of
            Some e \<Rightarrow> (Out_Err e, h)
          | None \<Rightarrow>
              (case drain_locked host (h\<lparr>hs_phase := Ph_Failed\<rparr>) of
                 (Out_Err e, h') \<Rightarrow> (Out_Err e, h')
               | (Out_Unwind, h') \<Rightarrow> (Out_Unwind, h')
               | (Out_Ok _, h') \<Rightarrow>
                   (case wh_audit host (hs_tape h') (hs_run_id h') status detail of
                      Refused e \<Rightarrow> (Out_Err (HE_Host (host_error_str e)), h')
                    | Unwound \<Rightarrow> (Out_Unwind, h')
                    | Replied _ \<Rightarrow>
                        (Out_Ok (hs_deferred h'),
                         h'\<lparr>hs_phase := Ph_Idle, hs_snapshot := None, hs_deferred := [],
                            hs_tape := hs_tape h' @ [Settled (hs_run_id h') status detail]\<rparr>))))"

definition run_detached :: "(nat \<Rightarrow> bool) \<Rightarrow> nat list \<Rightarrow> harness \<Rightarrow> harness" where
  "run_detached panics ops h =
     fold (\<lambda>op h. h\<lparr>hs_ran := hs_ran h @ [op], hs_panicked := hs_panicked h \<or> panics op\<rparr>) ops h"

definition after_settle :: "(nat \<Rightarrow> bool) \<Rightarrow> nat list outcome \<times> harness \<Rightarrow> unit outcome \<times> harness" where
  "after_settle panics r =
     (case r of
        (Out_Ok ops, h') \<Rightarrow> (Out_Ok (), run_detached panics ops h')
      | (Out_Err e, h') \<Rightarrow> (Out_Err e, h')
      | (Out_Unwind, h') \<Rightarrow> (Out_Unwind, h'))"

definition settle_owned ::
    "workflow_host \<Rightarrow> (nat \<Rightarrow> bool) \<Rightarrow> turn_token option \<Rightarrow> str \<Rightarrow> audit_status \<Rightarrow> harness \<Rightarrow> unit outcome \<times> harness" where
  "settle_owned host panics token detail status h =
     after_settle panics (checked_lock (settle_under_lock host token detail status) h)"

text \<open>\<open>contended\<close>: another thread holds the lock, so \<^verbatim>\<open>try_lock\<close> fails.\<close>

definition try_settle ::
    "workflow_host \<Rightarrow> (nat \<Rightarrow> bool) \<Rightarrow> bool \<Rightarrow> turn_token option \<Rightarrow> str \<Rightarrow> audit_status \<Rightarrow> harness \<Rightarrow>
     unit outcome \<times> harness" where
  "try_settle host panics contended token detail status h =
     (if contended then (Out_Err HE_Unavailable, h)
      else after_settle panics (checked_lock (settle_under_lock host token detail status) h))"

definition finish_turn :: "workflow_host \<Rightarrow> (nat \<Rightarrow> bool) \<Rightarrow> turn_token \<Rightarrow> harness \<Rightarrow> unit outcome \<times> harness" where
  "finish_turn host panics token = settle_owned host panics (Some token) ''RunEnd:finished'' AS_Ok"

definition abort_turn :: "workflow_host \<Rightarrow> (nat \<Rightarrow> bool) \<Rightarrow> turn_token \<Rightarrow> harness \<Rightarrow> unit outcome \<times> harness" where
  "abort_turn host panics token = settle_owned host panics (Some token) ''RunEnd:aborted'' AS_Denied"

definition try_abort_turn :: "workflow_host \<Rightarrow> (nat \<Rightarrow> bool) \<Rightarrow> bool \<Rightarrow> turn_token \<Rightarrow> harness \<Rightarrow> unit outcome \<times> harness" where
  "try_abort_turn host panics contended token = try_settle host panics contended (Some token) ''RunEnd:aborted'' AS_Denied"

definition try_finish_turn :: "workflow_host \<Rightarrow> (nat \<Rightarrow> bool) \<Rightarrow> bool \<Rightarrow> turn_token \<Rightarrow> harness \<Rightarrow> unit outcome \<times> harness" where
  "try_finish_turn host panics contended token = try_settle host panics contended (Some token) ''RunEnd:finished'' AS_Ok"

definition settle_on_drop :: "workflow_host \<Rightarrow> (nat \<Rightarrow> bool) \<Rightarrow> turn_token \<Rightarrow> harness \<Rightarrow> harness" where
  "settle_on_drop host panics token h = snd (abort_turn host panics token h)"

definition finish_run :: "workflow_host \<Rightarrow> (nat \<Rightarrow> bool) \<Rightarrow> harness \<Rightarrow> unit outcome \<times> harness" where
  "finish_run host panics = settle_owned host panics None ''RunEnd:finished'' AS_Ok"

definition abort_run :: "workflow_host \<Rightarrow> (nat \<Rightarrow> bool) \<Rightarrow> harness \<Rightarrow> unit outcome \<times> harness" where
  "abort_run host panics = settle_owned host panics None ''RunEnd:aborted'' AS_Denied"

definition set_model :: "str \<Rightarrow> harness \<Rightarrow> unit outcome \<times> harness" where
  "set_model m = checked_lock (\<lambda>h. (Out_Ok (), h\<lparr>hs_config := (hs_config h)\<lparr>cf_model := m\<rparr>\<rparr>))"

definition set_system_prompt :: "str \<Rightarrow> harness \<Rightarrow> unit outcome \<times> harness" where
  "set_system_prompt p = checked_lock (\<lambda>h. (Out_Ok (), h\<lparr>hs_config := (hs_config h)\<lparr>cf_system_prompt := p\<rparr>\<rparr>))"

definition add_tool :: "str \<Rightarrow> harness \<Rightarrow> unit outcome \<times> harness" where
  "add_tool n = checked_lock (\<lambda>h. (Out_Ok (), h\<lparr>hs_config := (hs_config h)\<lparr>cf_tools := cf_tools (hs_config h) @ [n]\<rparr>\<rparr>))"

definition add_resource :: "str \<Rightarrow> harness \<Rightarrow> unit outcome \<times> harness" where
  "add_resource n =
     checked_lock (\<lambda>h. (Out_Ok (), h\<lparr>hs_config := (hs_config h)\<lparr>cf_resources := cf_resources (hs_config h) @ [n]\<rparr>\<rparr>))"

definition queue_write :: "str \<Rightarrow> str \<Rightarrow> str \<Rightarrow> harness \<Rightarrow> unit outcome \<times> harness" where
  "queue_write topic payload key =
     checked_lock (\<lambda>h. case require_running h ''queue_write'' of
        Some e \<Rightarrow> (Out_Err e, h)
      | None \<Rightarrow> (Out_Ok (), h\<lparr>hs_pending := hs_pending h @
                   [\<lparr>en_topic = topic, en_payload_json = payload, en_idempotency_key = key\<rparr>]\<rparr>))"

definition steer :: "str \<Rightarrow> harness \<Rightarrow> unit outcome \<times> harness" where
  "steer note =
     checked_lock (\<lambda>h. if hs_phase h \<noteq> Ph_Running then (Out_Err (HE_PhaseBusy ''steer'' (hs_phase h)), h)
        else (Out_Ok (), h\<lparr>hs_follow_ups := hs_follow_ups h @ [note]\<rparr>))"

definition follow_up :: "str \<Rightarrow> harness \<Rightarrow> unit outcome \<times> harness" where
  "follow_up note = checked_lock (\<lambda>h. (Out_Ok (), h\<lparr>hs_follow_ups := hs_follow_ups h @ [note]\<rparr>))"

definition run_when_idle :: "nat \<Rightarrow> harness \<Rightarrow> unit outcome \<times> harness" where
  "run_when_idle f = checked_lock (\<lambda>h. (Out_Ok (), h\<lparr>hs_deferred := hs_deferred h @ [f]\<rparr>))"

definition require_idle :: "str \<Rightarrow> harness \<Rightarrow> unit outcome \<times> harness" where
  "require_idle op =
     checked_lock (\<lambda>h. if hs_phase h \<noteq> Ph_Idle then (Out_Err (HE_PhaseBusy op (hs_phase h)), h) else (Out_Ok (), h))"

definition compact :: "harness \<Rightarrow> unit outcome \<times> harness" where
  "compact = require_idle ''compact''"

definition set_leaf_id :: "str \<Rightarrow> harness \<Rightarrow> unit outcome \<times> harness" where
  "set_leaf_id leaf = require_idle ''set_leaf_id''"

definition navigate_tree :: "str \<Rightarrow> harness \<Rightarrow> unit outcome \<times> harness" where
  "navigate_tree node = require_idle ''navigate_tree''"

record agent_lane =
  ln_name :: str
  ln_main :: bool

definition lane_main :: agent_lane where
  "lane_main = \<lparr>ln_name = ''main'', ln_main = True\<rparr>"

definition lane_side :: "str \<Rightarrow> agent_lane" where
  "lane_side n = \<lparr>ln_name = n, ln_main = False\<rparr>"

definition lane_view :: "harness \<Rightarrow> h_phase \<times> turn_snapshot option" where
  "lane_view h = (hs_phase h, hs_snapshot h)"

definition lane_reject :: "agent_lane \<Rightarrow> str \<Rightarrow> harness_error" where
  "lane_reject lane op =
     (if ln_main lane
      then HE_Host (''internal: '' @ [CHR 0x60] @ op @ [CHR 0x60] @ '' must route through the harness'')
      else HE_LaneNotMain op)"

end
