(* ===== verification/Harness_Proofs.thy ===== *)
theory Harness_Proofs
  imports Harness
begin

text \<open>
  Lemmas and properties of the agent harness: what a drain delivers, what every operation
  may change, the invariant over all operation sequences, token ownership and settlement.
\<close>

subsection \<open>Draining\<close>

fun deliveries :: "i64 \<Rightarrow> entry_without_id list \<Rightarrow> bool list \<Rightarrow> host_event list" where
  "deliveries rid (e # es) (c # cs) =
     Delivered rid (en_topic e) (en_payload_json e) (en_idempotency_key e) c # deliveries rid es cs"
| "deliveries rid _ _ = []"

text \<open>A drain delivers a prefix of the queue, in order, and keeps the rest.\<close>

lemma drain_loop_result:
  assumes "drain_loop host es h = (r, h')" and "hs_pending h = es"
  shows "\<exists>n cs. n \<le> length es \<and> length cs = n \<and>
     h' = h\<lparr>hs_tape := hs_tape h @ deliveries (hs_run_id h) (take n es) cs, hs_pending := drop n es\<rparr> \<and>
     (r = Out_Ok () \<longleftrightarrow> n = length es)"
  using assms
proof (induction es arbitrary: h)
  case Nil
  then show ?case by (intro exI [of _ 0] exI [of _ "[]"]) auto
next
  case (Cons e es)
  show ?case
  proof (cases "wh_enqueue host (hs_tape h) (hs_run_id h) (en_topic e) (en_payload_json e) (en_idempotency_key e)")
    case (Replied c)
    let ?h = "h\<lparr>hs_tape := hs_tape h @ [Delivered (hs_run_id h) (en_topic e) (en_payload_json e) (en_idempotency_key e) c],
                hs_pending := es\<rparr>"
    from Replied Cons.prems have "drain_loop host es ?h = (r, h')"
      by (simp add: enqueue_locked_def)
    then obtain n cs where "n \<le> length es" "length cs = n"
      "h' = ?h\<lparr>hs_tape := hs_tape ?h @ deliveries (hs_run_id ?h) (take n es) cs, hs_pending := drop n es\<rparr>"
      "r = Out_Ok () \<longleftrightarrow> n = length es"
      using Cons.IH [of ?h] by auto
    then show ?thesis
      by (intro exI [of _ "Suc n"] exI [of _ "c # cs"]) simp
  next
    case (Refused x)
    with Cons.prems show ?thesis
      by (intro exI [of _ 0] exI [of _ "[]"]) (auto simp: enqueue_locked_def)
  next
    case Unwound
    with Cons.prems show ?thesis
      by (intro exI [of _ 0] exI [of _ "[]"]) (auto simp: enqueue_locked_def)
  qed
qed

lemma drain_locked_result:
  assumes "drain_locked host h = (r, h')"
  obtains n cs where "n \<le> length (hs_pending h)" and "length cs = n"
    and "h' = h\<lparr>hs_tape := hs_tape h @ deliveries (hs_run_id h) (take n (hs_pending h)) cs,
                hs_pending := drop n (hs_pending h)\<rparr>"
    and "r = Out_Ok () \<longleftrightarrow> n = length (hs_pending h)"
  using drain_loop_result [of host "hs_pending h" h r h'] assms by (auto simp: drain_locked_def)

lemma drain_locked_phase: "drain_locked host h = (r, h') \<Longrightarrow> hs_phase h' = hs_phase h"
  by (erule drain_locked_result) simp

lemma outcome_unit: "(r :: unit outcome) = Out_Ok () \<or> (\<exists>e. r = Out_Err e) \<or> r = Out_Unwind"
  by (cases r) auto

subsection \<open>What an operation may change\<close>

definition is_start :: "host_event \<Rightarrow> bool" where
  "is_start ev = (case ev of Settled _ _ d \<Rightarrow> d = ''RunStart'' | _ \<Rightarrow> False)"

definition starts :: "harness \<Rightarrow> nat" where
  "starts h = length (filter is_start (hs_tape h))"

definition same_turn :: "harness \<Rightarrow> harness \<Rightarrow> bool" where
  "same_turn h h' \<longleftrightarrow>
     hs_turn_token h' = hs_turn_token h \<and> hs_run_id h' = hs_run_id h \<and> starts h' = starts h \<and>
     (hs_phase h' = Ph_Running \<longrightarrow> hs_phase h = Ph_Running \<and> hs_snapshot h' = hs_snapshot h)"

definition next_turn :: "harness \<Rightarrow> harness \<Rightarrow> bool" where
  "next_turn h h' \<longleftrightarrow>
     hs_phase h = Ph_Idle \<and> hs_phase h' = Ph_Running \<and>
     unat (hs_turn_token h') = unat (hs_turn_token h) + 1 \<and> starts h' = starts h + 1 \<and>
     hs_snapshot h' = Some (config_snapshot (hs_config h))"

definition h_rel :: "harness \<Rightarrow> harness \<Rightarrow> bool" where
  "h_rel h h' \<longleftrightarrow>
     hs_identity h' = hs_identity h \<and> (same_turn h h' \<or> next_turn h h') \<and>
     (hs_phase h = Ph_Failed \<longrightarrow> hs_phase h' = Ph_Failed)"

definition h_inv :: "harness \<Rightarrow> bool" where
  "h_inv h \<longleftrightarrow>
     hs_phase h \<noteq> Ph_Compact \<and>
     (hs_phase h = Ph_Idle \<longrightarrow> hs_snapshot h = None \<and> hs_pending h = []) \<and>
     (hs_phase h = Ph_Running \<longrightarrow> hs_snapshot h \<noteq> None) \<and>
     starts h = unat (hs_turn_token h)"

definition good :: "harness \<Rightarrow> harness \<Rightarrow> bool" where
  "good h h' \<longleftrightarrow> h_rel h h' \<and> (h_inv h \<longrightarrow> h_inv h')"

lemma good_refl [simp]: "good h h"
  by (simp add: good_def h_rel_def same_turn_def)

lemma starts_update [simp]:
  "starts (h\<lparr>hs_phase := p\<rparr>) = starts h" "starts (h\<lparr>hs_pending := q\<rparr>) = starts h"
  "starts (h\<lparr>hs_config := c\<rparr>) = starts h" "starts (h\<lparr>hs_follow_ups := f\<rparr>) = starts h"
  "starts (h\<lparr>hs_deferred := d\<rparr>) = starts h" "starts (h\<lparr>hs_snapshot := sn\<rparr>) = starts h"
  "starts (h\<lparr>hs_poisoned := b\<rparr>) = starts h" "starts (h\<lparr>hs_panicked := b\<rparr>) = starts h"
  "starts (h\<lparr>hs_ran := rn\<rparr>) = starts h" "starts (h\<lparr>hs_run_id := i\<rparr>) = starts h"
  "starts (h\<lparr>hs_turn_token := t\<rparr>) = starts h"
  by (simp_all add: starts_def)

lemma starts_tape: "starts (h\<lparr>hs_tape := t\<rparr>) = length (filter is_start t)"
  by (simp add: starts_def)

lemma deliveries_not_start [simp]: "filter is_start (deliveries rid es cs) = []"
  by (induction rid es cs rule: deliveries.induct) (auto simp: is_start_def)

lemma good_poison [simp]: "good h (h'\<lparr>hs_poisoned := True\<rparr>) = good h h'"
  by (simp add: good_def h_rel_def same_turn_def next_turn_def h_inv_def)

lemma checked_lock_good: "(\<And>r h'. body h = (r, h') \<Longrightarrow> good h h') \<Longrightarrow> good h (snd (checked_lock body h))"
  by (auto simp: checked_lock_def split: prod.splits outcome.splits)

lemma enqueue_good: "enqueue_locked host topic payload key h = (r, h') \<Longrightarrow> hs_phase h = Ph_Running \<Longrightarrow>
    good h h' \<and> hs_phase h' = Ph_Running \<and> hs_pending h' = hs_pending h"
  by (auto simp: enqueue_locked_def good_def h_rel_def same_turn_def h_inv_def starts_tape is_start_def
      starts_def split: reply.splits)

lemma drain_good:
  assumes "drain_locked host h = (r, h')" and "hs_phase h = Ph_Running"
  shows "good h h' \<and> hs_phase h' = Ph_Running"
  using assms(1)
proof (rule drain_locked_result)
  fix n cs
  assume h': "h' = h\<lparr>hs_tape := hs_tape h @ deliveries (hs_run_id h) (take n (hs_pending h)) cs,
                hs_pending := drop n (hs_pending h)\<rparr>"
  then have "starts h' = starts h" by (simp add: starts_def)
  with h' assms(2) show ?thesis
    by (simp add: good_def h_rel_def same_turn_def h_inv_def)
qed

lemma good_trans_running:
  "good a b \<Longrightarrow> good b c \<Longrightarrow> hs_phase a = Ph_Running \<Longrightarrow> hs_phase b = Ph_Running \<Longrightarrow> good a c"
  by (auto simp: good_def h_rel_def same_turn_def next_turn_def)

lemma message_end_body_good:
  assumes "message_end_body host payload key h = (r, h')" and "hs_phase h = Ph_Running"
  shows "good h h'"
proof -
  obtain r1 h1 where e: "enqueue_locked host ''message_end'' payload key h = (r1, h1)" by (meson surj_pair)
  from enqueue_good [OF e assms(2)] have g: "good h h1" "hs_phase h1 = Ph_Running" by simp_all
  show ?thesis
  proof (cases r1)
    case (Out_Ok u)
    with assms(1) e have "drain_locked host h1 = (r, h')" by (simp add: message_end_body_def)
    with drain_good [OF this] g assms(2) good_trans_running show ?thesis by blast
  qed (use assms(1) e g in \<open>simp_all add: message_end_body_def\<close>)
qed

lemma save_point_body_good:
  assumes "save_point_body host h = (r, h')" and "hs_phase h = Ph_Running"
  shows "good h h'"
proof -
  obtain r1 where "drain_locked host h = (r1, h')"
    using assms(1) by (auto simp: save_point_body_def split: prod.splits outcome.splits)
  with drain_good assms(2) show ?thesis by blast
qed

lemma running_cases [simp]: "require_running h op = None \<longleftrightarrow> hs_phase h = Ph_Running"
  by (simp add: require_running_def)

lemma verify_cases [simp]: "verify_token h t = None \<longleftrightarrow> token_ok h t"
  by (simp add: verify_token_def)

lemma start_body_good: "start_body host run_id op h = (r, h') \<Longrightarrow> good h h'"
proof -
  assume st: "start_body host run_id op h = (r, h')"
  have inc: "unat (hs_turn_token h + 1) = unat (hs_turn_token h) + 1" if "hs_turn_token h \<noteq> - 1"
  proof -
    from that have "1 + hs_turn_token h \<noteq> 0" by (metis add.commute eq_neg_iff_add_eq_0)
    then show ?thesis using unatSuc [of "hs_turn_token h"] by (simp add: add.commute)
  qed
  show "good h h'"
    using st inc
    by (auto simp: start_body_def Let_def good_def h_rel_def same_turn_def next_turn_def h_inv_def
        starts_def is_start_def split: if_splits reply.splits)
qed


lemma settle_under_lock_result:
  assumes "settle_under_lock host token detail status h = (r, h')"
  obtains (refused) e where "r = Out_Err e" and "h' = h"
  | (idle) "hs_phase h = Ph_Idle" and "r = Out_Ok []" and "h' = h"
  | (failed) n cs where "hs_phase h = Ph_Running" and "\<forall>t. token = Some t \<longrightarrow> token_ok h t"
      and "\<forall>ops. r \<noteq> Out_Ok ops" and "n \<le> length (hs_pending h)" and "length cs = n"
      and "h' = h\<lparr>hs_phase := Ph_Failed,
                  hs_tape := hs_tape h @ deliveries (hs_run_id h) (take n (hs_pending h)) cs,
                  hs_pending := drop n (hs_pending h)\<rparr>"
  | (settled) cs where "hs_phase h = Ph_Running" and "\<forall>t. token = Some t \<longrightarrow> token_ok h t"
      and "r = Out_Ok (hs_deferred h)" and "length cs = length (hs_pending h)"
      and "h' = h\<lparr>hs_phase := Ph_Idle, hs_snapshot := None, hs_deferred := [], hs_pending := [],
                  hs_tape := hs_tape h @ deliveries (hs_run_id h) (hs_pending h) cs @
                             [Settled (hs_run_id h) status detail]\<rparr>"
proof (cases "(\<forall>t. token = Some t \<longrightarrow> token_ok h t) \<and> hs_phase h = Ph_Running")
  case False
  show thesis
  proof (cases "\<exists>t. token = Some t \<and> \<not> token_ok h t")
    case True
    then have "settle_under_lock host token detail status h = (Out_Err (HE_Host ''stale_turn_token''), h)"
      by (auto simp: settle_under_lock_def verify_token_def)
    with assms have "r = Out_Err (HE_Host ''stale_turn_token'')" and "h' = h" by simp_all
    then show thesis by (rule refused)
  next
    case tok: False
    then have v: "(case token of None \<Rightarrow> None | Some t \<Rightarrow> verify_token h t) = None"
      by (cases token) (simp_all add: verify_token_def)
    show thesis
    proof (cases "hs_phase h = Ph_Idle")
      case True
      with v assms have "r = Out_Ok []" and "h' = h" by (simp_all add: settle_under_lock_def)
      with True show thesis by (rule idle)
    next
      case ni: False
      with False tok have "hs_phase h \<noteq> Ph_Running" by blast
      with v ni have "settle_under_lock host token detail status h =
          (Out_Err (HE_PhaseUnavailable ''settle'' (hs_phase h)), h)"
        by (simp add: settle_under_lock_def require_running_def)
      with assms have "r = Out_Err (HE_PhaseUnavailable ''settle'' (hs_phase h))" and "h' = h" by auto
      then show thesis by (rule refused)
    qed
  qed
next
  case run: True
  then have tok: "(case token of None \<Rightarrow> None | Some t \<Rightarrow> verify_token h t) = None"
    by (simp split: option.splits)
  obtain r1 h1 where d: "drain_locked host (h\<lparr>hs_phase := Ph_Failed\<rparr>) = (r1, h1)" by (meson surj_pair)
  from d obtain n cs where n: "n \<le> length (hs_pending h)" "length cs = n"
    and h1: "h1 = h\<lparr>hs_phase := Ph_Failed,
                  hs_tape := hs_tape h @ deliveries (hs_run_id h) (take n (hs_pending h)) cs,
                  hs_pending := drop n (hs_pending h)\<rparr>"
    and ok: "r1 = Out_Ok () \<longleftrightarrow> n = length (hs_pending h)"
    by (rule drain_locked_result) simp
  have body: "settle_under_lock host token detail status h =
     (case r1 of
        Out_Err e \<Rightarrow> (Out_Err e, h1)
      | Out_Unwind \<Rightarrow> (Out_Unwind, h1)
      | Out_Ok _ \<Rightarrow>
          (case wh_audit host (hs_tape h1) (hs_run_id h1) status detail of
             Refused e \<Rightarrow> (Out_Err (HE_Host (host_error_str e)), h1)
           | Unwound \<Rightarrow> (Out_Unwind, h1)
           | Replied _ \<Rightarrow>
               (Out_Ok (hs_deferred h1),
                h1\<lparr>hs_phase := Ph_Idle, hs_snapshot := None, hs_deferred := [],
                   hs_tape := hs_tape h1 @ [Settled (hs_run_id h1) status detail]\<rparr>)))"
    using run by (simp add: settle_under_lock_def tok require_running_def d split: outcome.splits)
  show thesis
  proof (cases "r1 = Out_Ok () \<and> wh_audit host (hs_tape h1) (hs_run_id h1) status detail = Replied ()")
    case True
    with ok body assms h1 n have "r = Out_Ok (hs_deferred h)" and "length cs = length (hs_pending h)"
      and "h' = h\<lparr>hs_phase := Ph_Idle, hs_snapshot := None, hs_deferred := [], hs_pending := [],
                  hs_tape := hs_tape h @ deliveries (hs_run_id h) (hs_pending h) cs @
                             [Settled (hs_run_id h) status detail]\<rparr>"
      by simp_all
    with run show thesis by (intro settled) simp_all
  next
    case False
    then have "\<forall>ops. r \<noteq> Out_Ok ops" "h' = h1"
      using assms body by (auto split: outcome.splits reply.splits)
    with run h1 n show thesis by (intro failed) simp_all
  qed
qed

lemma settle_under_lock_good:
  assumes "settle_under_lock host token detail status h = (r, h')" and "detail \<noteq> ''RunStart''"
  shows "good h h'"
  using assms(1)
  by (cases rule: settle_under_lock_result)
     (use assms(2) in \<open>auto simp: good_def h_rel_def same_turn_def h_inv_def starts_def is_start_def\<close>)

lemma run_detached_fields [simp]:
  "hs_identity (run_detached panics ops h) = hs_identity h" "hs_phase (run_detached panics ops h) = hs_phase h"
  "hs_snapshot (run_detached panics ops h) = hs_snapshot h" "hs_pending (run_detached panics ops h) = hs_pending h"
  "hs_turn_token (run_detached panics ops h) = hs_turn_token h" "hs_run_id (run_detached panics ops h) = hs_run_id h"
  "hs_tape (run_detached panics ops h) = hs_tape h" "hs_config (run_detached panics ops h) = hs_config h"
  "hs_ran (run_detached panics ops h) = hs_ran h @ ops" "hs_deferred (run_detached panics ops h) = hs_deferred h"
  "hs_panicked (run_detached panics ops h) = (hs_panicked h \<or> (\<exists>op \<in> set ops. panics op))"
  by (induction ops arbitrary: h) (auto simp: run_detached_def)

lemma starts_run_detached [simp]: "starts (run_detached panics ops h) = starts h"
  by (simp add: starts_def)

lemma good_run_detached [simp]: "good h (run_detached panics ops h') = good h h'"
  by (simp add: good_def h_rel_def same_turn_def next_turn_def h_inv_def)

lemma after_settle_good: "good h (snd r) \<Longrightarrow> good h (snd (after_settle panics r))"
  by (cases r) (auto simp: after_settle_def split: outcome.splits)

lemma settle_owned_good: "detail \<noteq> ''RunStart'' \<Longrightarrow> good h (snd (settle_owned host panics token detail status h))"
  unfolding settle_owned_def by (intro after_settle_good checked_lock_good) (rule settle_under_lock_good)

lemma try_settle_good: "detail \<noteq> ''RunStart'' \<Longrightarrow> good h (snd (try_settle host panics contended token detail status h))"
  using settle_owned_good [of detail h host panics token status] by (simp add: try_settle_def settle_owned_def)

subsection \<open>All operations\<close>

inductive h_step :: "workflow_host \<Rightarrow> (nat \<Rightarrow> bool) \<Rightarrow> harness \<Rightarrow> harness \<Rightarrow> bool" for host panics where
  "h_step host panics h (snd (start_turn host run_id h))"
| "h_step host panics h (snd (start_run host run_id h))"
| "h_step host panics h (snd (message_end_owned host token payload key h))"
| "h_step host panics h (snd (message_end host payload key h))"
| "h_step host panics h (snd (save_point_owned host token h))"
| "h_step host panics h (snd (save_point host h))"
| "h_step host panics h (snd (finish_turn host panics token h))"
| "h_step host panics h (snd (abort_turn host panics token h))"
| "h_step host panics h (snd (try_abort_turn host panics contended token h))"
| "h_step host panics h (snd (try_finish_turn host panics contended token h))"
| "h_step host panics h (settle_on_drop host panics token h)"
| "h_step host panics h (snd (finish_run host panics h))"
| "h_step host panics h (snd (abort_run host panics h))"
| "h_step host panics h (snd (set_model m h))"
| "h_step host panics h (snd (set_system_prompt p h))"
| "h_step host panics h (snd (add_tool n h))"
| "h_step host panics h (snd (add_resource n h))"
| "h_step host panics h (snd (queue_write topic payload key h))"
| "h_step host panics h (snd (steer note h))"
| "h_step host panics h (snd (follow_up note h))"
| "h_step host panics h (snd (run_when_idle f h))"
| "h_step host panics h (snd (compact h))"
| "h_step host panics h (snd (set_leaf_id leaf h))"
| "h_step host panics h (snd (navigate_tree node h))"

inductive_cases h_stepE: "h_step host panics h h'"

lemma lock_ops_good:
  "good h (snd (start_turn host run_id h))" "good h (snd (start_run host run_id h))"
  "good h (snd (message_end_owned host token payload key h))" "good h (snd (message_end host payload key h))"
  "good h (snd (save_point_owned host token h))" "good h (snd (save_point host h))"
proof -
  show "good h (snd (start_turn host run_id h))"
    unfolding start_turn_def by (intro checked_lock_good start_body_good)
  have "good h (snd (checked_lock (start_body host run_id ''start_run'') h))"
    by (intro checked_lock_good start_body_good)
  then show "good h (snd (start_run host run_id h))"
    by (auto simp: start_run_def split: prod.splits outcome.splits)
  show "good h (snd (message_end_owned host token payload key h))"
    unfolding message_end_owned_def
    by (intro checked_lock_good)
       (auto simp: token_ok_def verify_token_def split: option.splits if_splits intro: message_end_body_good)
  show "good h (snd (message_end host payload key h))"
    unfolding message_end_def
    by (intro checked_lock_good) (auto simp: require_running_def split: option.splits if_splits intro: message_end_body_good)
  show "good h (snd (save_point_owned host token h))"
    unfolding save_point_owned_def
    by (intro checked_lock_good)
       (auto simp: token_ok_def verify_token_def split: option.splits if_splits intro: save_point_body_good)
  show "good h (snd (save_point host h))"
    unfolding save_point_def
    by (intro checked_lock_good) (auto simp: require_running_def split: option.splits if_splits intro: save_point_body_good)
qed

lemma plain_ops_good:
  "good h (snd (set_model m h))" "good h (snd (set_system_prompt p h))" "good h (snd (add_tool n h))"
  "good h (snd (add_resource n h))" "good h (snd (queue_write topic payload key h))" "good h (snd (steer note h))"
  "good h (snd (follow_up note h))" "good h (snd (run_when_idle f h))" "good h (snd (require_idle op h))"
  unfolding set_model_def set_system_prompt_def add_tool_def add_resource_def queue_write_def steer_def
    follow_up_def run_when_idle_def require_idle_def
  by (rule checked_lock_good; auto simp: good_def h_rel_def same_turn_def h_inv_def require_running_def
      split: if_splits option.splits)+

lemma h_step_good: "h_step host panics h h' \<Longrightarrow> good h h'"
  by (erule h_stepE)
     (simp_all add: lock_ops_good plain_ops_good compact_def set_leaf_id_def navigate_tree_def finish_turn_def
       abort_turn_def try_abort_turn_def try_finish_turn_def settle_on_drop_def finish_run_def abort_run_def
       settle_owned_good try_settle_good)


subsection \<open>Sequences of operations\<close>

abbreviation h_steps :: "workflow_host \<Rightarrow> (nat \<Rightarrow> bool) \<Rightarrow> harness \<Rightarrow> harness \<Rightarrow> bool" where
  "h_steps host panics \<equiv> (h_step host panics)\<^sup>*\<^sup>*"

lemma h_steps_facts:
  assumes "h_steps host panics h h'"
  shows "hs_identity h' = hs_identity h \<and> unat (hs_turn_token h) \<le> unat (hs_turn_token h') \<and>
     (hs_turn_token h' = hs_turn_token h \<and> hs_phase h' = Ph_Running \<longrightarrow>
        hs_phase h = Ph_Running \<and> hs_snapshot h' = hs_snapshot h \<and> hs_run_id h' = hs_run_id h) \<and>
     (hs_phase h = Ph_Failed \<longrightarrow> hs_phase h' = Ph_Failed) \<and> (h_inv h \<longrightarrow> h_inv h')"
  using assms
proof (induction rule: rtranclp_induct)
  case base
  show ?case by simp
next
  case (step b c)
  from h_step_good [OF step.hyps(2)] have g: "hs_identity c = hs_identity b" "same_turn b c \<or> next_turn b c"
    "hs_phase b = Ph_Failed \<longrightarrow> hs_phase c = Ph_Failed" "h_inv b \<longrightarrow> h_inv c"
    by (simp_all add: good_def h_rel_def)
  from g(2) show ?case
  proof
    assume "same_turn b c"
    then have e: "hs_turn_token c = hs_turn_token b" "hs_run_id c = hs_run_id b"
      "hs_phase c = Ph_Running \<longrightarrow> hs_phase b = Ph_Running \<and> hs_snapshot c = hs_snapshot b"
      by (simp_all add: same_turn_def)
    show ?thesis
      using step.IH g(3,4) e(3) unfolding e(1,2) g(1) by metis
  next
    assume n: "next_turn b c"
    then have "unat (hs_turn_token h) < unat (hs_turn_token c)"
      using step.IH by (simp add: next_turn_def)
    with step.IH g(3,4) show ?thesis unfolding g(1) by (metis less_irrefl less_imp_le)
  qed
qed

lemma start_turn_Ok:
  assumes "start_turn host rid h = (Out_Ok (snap, t), h')"
  shows "hs_phase h' = Ph_Running \<and> hs_run_id h' = rid \<and> hs_snapshot h' = Some snap \<and>
     snap = config_snapshot (hs_config h) \<and> token_ok h' t \<and>
     unat (hs_turn_token h') = unat (hs_turn_token h) + 1 \<and>
     Settled rid AS_Ok ''RunStart'' = last (hs_tape h')"
proof -
  have body: "start_body host rid ''start_turn'' h = (Out_Ok (snap, t), h')"
    using assms by (auto simp: start_turn_def checked_lock_def split: if_splits prod.splits outcome.splits)
  from body have tok: "hs_turn_token h \<noteq> - 1" and idle: "hs_phase h = Ph_Idle"
    and h': "h' = h\<lparr>hs_phase := Ph_Running, hs_run_id := rid, hs_snapshot := Some (config_snapshot (hs_config h)),
                   hs_turn_token := hs_turn_token h + 1,
                   hs_tape := hs_tape h @ [Settled rid AS_Ok ''RunStart'']\<rparr>"
    and st: "snap = config_snapshot (hs_config h)" "t = \<lparr>tk_harness = hs_identity h, tk_generation = hs_turn_token h + 1\<rparr>"
    by (auto simp: start_body_def Let_def split: if_splits reply.splits)
  from start_body_good [OF body] h' idle have "unat (hs_turn_token h') = unat (hs_turn_token h) + 1"
    by (auto simp: good_def h_rel_def same_turn_def next_turn_def)
  with h' st show ?thesis by (simp add: token_ok_def)
qed

definition calm_host :: workflow_host where
  "calm_host = \<lparr>wh_enqueue = (\<lambda>_ _ _ _ _. Replied True), wh_audit = (\<lambda>_ _ _ _. Replied ())\<rparr>"

definition demo_harness :: harness where
  "demo_harness = snd (start_turn calm_host 7 (harness_new 1 ''m'' ''p''))"

definition demo_token :: turn_token where
  "demo_token = \<lparr>tk_harness = 1, tk_generation = 1\<rparr>"

lemma demo_start: "start_turn calm_host 7 (harness_new 1 ''m'' ''p'') =
    (Out_Ok (config_snapshot (hs_config (harness_new 1 ''m'' ''p'')), demo_token), demo_harness)"
  by (simp add: demo_harness_def start_turn_def checked_lock_def start_body_def harness_new_def calm_host_def
      Let_def demo_token_def)

subsection \<open>Properties\<close>



text \<open>
  C19. A stale token does nothing.  With a token that is not the current turn's (another
  harness's, an earlier turn's, or the turn being over), each of the owned operations
  returns an error and leaves the harness exactly as it was: no delivery, no audit row, no
  phase change.
\<close>

theorem stale_token_inert:
  assumes "\<not> token_ok h t"
  shows "(\<exists>e. message_end_owned host t payload key h = (Out_Err e, h)) \<and>
         (\<exists>e. save_point_owned host t h = (Out_Err e, h)) \<and>
         (\<exists>e. finish_turn host panics t h = (Out_Err e, h)) \<and>
         (\<exists>e. abort_turn host panics t h = (Out_Err e, h)) \<and>
         (\<exists>e. try_abort_turn host panics contended t h = (Out_Err e, h)) \<and>
         (\<exists>e. try_finish_turn host panics contended t h = (Out_Err e, h)) \<and>
         settle_on_drop host panics t h = h"
  using assms
  by (simp add: message_end_owned_def save_point_owned_def finish_turn_def abort_turn_def try_abort_turn_def
      try_finish_turn_def settle_on_drop_def settle_owned_def try_settle_def checked_lock_def verify_token_def
      settle_under_lock_def after_settle_def)

theorem stale_token_inert_witness:
  "\<exists>e. finish_turn calm_host (\<lambda>_. False) demo_token (harness_new 1 ''m'' ''p'') = (Out_Err e, harness_new 1 ''m'' ''p'')"
  using stale_token_inert [of "harness_new 1 ''m'' ''p''" demo_token calm_host "[]" "[]" "\<lambda>_. False"]
  by (simp add: token_ok_def harness_new_def)

text \<open>
  C20. Settlement is all or failed.  Finishing a turn with its token either succeeds: the
  whole queue was delivered in FIFO order, then the \<^verbatim>\<open>RunEnd\<close> row was written, the harness is
  idle with no snapshot and an empty queue, and the deferred callbacks ran once, in order,
  each even when an earlier one panics; or it does not, and the harness is in \<^verbatim>\<open>Failed\<close>, with
  a prefix of the queue delivered in order and exactly the rest still queued.
\<close>

theorem settlement_outcome:
  assumes "finish_turn host panics t h = (r, h')" and "token_ok h t" and "\<not> hs_poisoned h"
  shows "(r = Out_Ok () \<longrightarrow>
            hs_phase h' = Ph_Idle \<and> hs_snapshot h' = None \<and> hs_pending h' = [] \<and> hs_deferred h' = [] \<and>
            hs_ran h' = hs_ran h @ hs_deferred h \<and>
            (\<exists>cs. length cs = length (hs_pending h) \<and>
               hs_tape h' = hs_tape h @ deliveries (hs_run_id h) (hs_pending h) cs @
                 [Settled (hs_run_id h) AS_Ok ''RunEnd:finished''])) \<and>
         (r \<noteq> Out_Ok () \<longrightarrow>
            hs_phase h' = Ph_Failed \<and> hs_ran h' = hs_ran h \<and>
            (\<exists>n cs. length cs = n \<and> n \<le> length (hs_pending h) \<and> hs_pending h' = drop n (hs_pending h) \<and>
               hs_tape h' = hs_tape h @ deliveries (hs_run_id h) (take n (hs_pending h)) cs))"
proof -
  obtain r1 h1 where s: "settle_under_lock host (Some t) ''RunEnd:finished'' AS_Ok h = (r1, h1)"
    by (meson surj_pair)
  have run: "hs_phase h = Ph_Running" using assms(2) by (simp add: token_ok_def)
  have fin: "(r, h') = after_settle panics
      (case r1 of Out_Unwind \<Rightarrow> (Out_Unwind, h1\<lparr>hs_poisoned := True\<rparr>) | _ \<Rightarrow> (r1, h1))"
    using assms(1,3) by (simp add: finish_turn_def settle_owned_def checked_lock_def s split: outcome.splits)
  from s show ?thesis
  proof (cases rule: settle_under_lock_result)
    case (refused e)
    then show ?thesis
      using s assms(2) run
      by (auto simp: settle_under_lock_def verify_token_def require_running_def split: prod.splits outcome.splits reply.splits dest!: drain_locked_phase)
  next
    case idle
    with run show ?thesis by simp
  next
    case (failed n cs)
    then show ?thesis
      using fin by (cases r1) (auto simp: after_settle_def intro!: exI [of _ n] exI [of _ cs])
  next
    case (settled cs)
    then show ?thesis
      using fin by (auto simp: after_settle_def intro!: exI [of _ cs])
  qed
qed

theorem settlement_outcome_witness:
  "hs_phase (snd (finish_turn calm_host (\<lambda>_. False) demo_token demo_harness)) = Ph_Idle \<or>
   hs_phase (snd (finish_turn calm_host (\<lambda>_. False) demo_token demo_harness)) = Ph_Failed"
proof -
  have "token_ok demo_harness demo_token" "\<not> hs_poisoned demo_harness"
    using start_turn_Ok [OF demo_start]
    by (simp_all add: demo_harness_def start_turn_def checked_lock_def start_body_def harness_new_def
        calm_host_def Let_def)
  with settlement_outcome [OF surjective_pairing, where host = calm_host
      and panics = "\<lambda>_. False" and t = demo_token and h = demo_harness]
  show ?thesis by blast
qed

text \<open>
  C21. The harness invariant, and failure is final.  Whatever operations are called in
  whatever order over whatever host: an idle harness has no snapshot and an empty queue (no
  write crosses turns), a running one has its snapshot, the number of \<^verbatim>\<open>RunStart\<close> rows
  acknowledged equals the turn generation, the generation never wraps, and no operation
  leaves the phase \<^verbatim>\<open>Failed\<close>.
\<close>

theorem harness_invariant:
  assumes "h_steps host panics (harness_new ident model prompt) h"
  shows "h_inv h \<and>
         (\<forall>h'. h_steps host panics h h' \<longrightarrow>
            unat (hs_turn_token h) \<le> unat (hs_turn_token h') \<and>
            (hs_phase h = Ph_Failed \<longrightarrow> hs_phase h' = Ph_Failed))"
proof -
  have "h_inv (harness_new ident model prompt)"
    by (simp add: h_inv_def harness_new_def starts_def)
  with h_steps_facts [OF assms] h_steps_facts [of host panics h] show ?thesis by blast
qed

theorem harness_invariant_witness: "h_inv demo_harness"
proof -
  have "h_steps calm_host (\<lambda>_. False) (harness_new 1 ''m'' ''p'') demo_harness"
    unfolding demo_harness_def by (rule r_into_rtranclp) (rule h_step.intros)
  from harness_invariant [OF this] show ?thesis by blast
qed

end
