(* ===== verification/Json_Value.thy ===== *)
theory Json_Value
  imports Prelude
begin

text \<open>
  JSON values as the program handles them, shared by the components that read them: a
  \<^verbatim>\<open>serde_json::Value\<close> is the datatype \<^verbatim>\<open>json\<close>, its object the association list of a
  \<^verbatim>\<open>BTreeMap\<close> (keys in order), its number an integer or the text of a float.
\<close>

section \<open>JSON values\<close>

datatype json =
    J_Null | J_Bool bool | J_Int int | J_Float str | J_Str str | J_Arr "json list" | J_Obj "(str \<times> json) list"

fun j_get :: "json \<Rightarrow> str \<Rightarrow> json option" where
  "j_get (J_Obj fs) k = map_of fs k"
| "j_get _ k = None"

fun as_str :: "json \<Rightarrow> str option" where
  "as_str (J_Str s) = Some s"
| "as_str _ = None"

fun as_array :: "json \<Rightarrow> json list option" where
  "as_array (J_Arr xs) = Some xs"
| "as_array _ = None"

fun as_u64 :: "json \<Rightarrow> u64 option" where
  "as_u64 (J_Int n) = (if 0 \<le> n \<and> n < 2 ^ 64 then Some (word_of_int n) else None)"
| "as_u64 _ = None"

lemma as_u64_uint [simp]: "as_u64 (J_Int (uint w)) = Some w"
  using uint_lt2p [of w] by simp

declare as_u64.simps(1) [simp del]

fun as_bool :: "json \<Rightarrow> bool option" where
  "as_bool (J_Bool b) = Some b"
| "as_bool _ = None"

fun as_object :: "json \<Rightarrow> (str \<times> json) list option" where
  "as_object (J_Obj fs) = Some fs"
| "as_object _ = None"

definition str_key :: "json \<Rightarrow> str \<Rightarrow> str option" where
  "str_key v k = Option.bind (j_get v k) as_str"

definition non_null :: "json \<Rightarrow> str \<Rightarrow> bool" where
  "non_null v k = (case j_get v k of None \<Rightarrow> False | Some x \<Rightarrow> x \<noteq> J_Null)"

end
