(* ===== verification/Workflow_State.thy ===== *)
theory Workflow_State
  imports Json_Value
begin

text \<open>
  The engine ABI's routing table and context window
  (\<^verbatim>\<open>crates/brain-engine-sdk/src/workflow_state.rs\<close>): the decision an engine takes on a run's
  state, the public word shown for it, and the window of events derived for a consumer.
  The JSON reader and printer are the parameters \<^verbatim>\<open>from_str\<close> and \<^verbatim>\<open>to_str\<close>.
\<close>

section \<open>Routing\<close>



datatype wf_public =
    Pub_Received | Pub_InProgress | Pub_AwaitingYourReply | Pub_AwaitingConfirmation | Pub_Resolved | Pub_Closed

fun wf_public_as_str :: "wf_public \<Rightarrow> str" where
  "wf_public_as_str Pub_Received = ''received''"
| "wf_public_as_str Pub_InProgress = ''in-progress''"
| "wf_public_as_str Pub_AwaitingYourReply = ''awaiting-your-reply''"
| "wf_public_as_str Pub_AwaitingConfirmation = ''awaiting-confirmation''"
| "wf_public_as_str Pub_Resolved = ''resolved''"
| "wf_public_as_str Pub_Closed = ''closed''"


section \<open>The context window\<close>

record event_row =
  ev_id :: i64
  ev_topic :: str
  ev_payload :: str

record context_window =
  cw_checkpoint :: "event_row option"
  cw_delta :: "event_row list"
  cw_digests :: "str list"
  cw_question :: "str option"
  cw_truncated :: bool

fun count_fields :: "json \<Rightarrow> nat" where
  "count_fields (J_Arr xs) = sum_list (map count_fields xs)"
| "count_fields (J_Obj fs) = 1 + sum_list (map (\<lambda>p. count_fields (snd p)) fs)"
| "count_fields J_Null = 1"
| "count_fields (J_Bool _) = 1"
| "count_fields (J_Int _) = 1"
| "count_fields (J_Float _) = 1"
| "count_fields (J_Str _) = 1"

definition hex16 :: "u64 \<Rightarrow> str" where
  "hex16 h = map (\<lambda>i. hex_digit (unat (drop_bit (60 - 4 * i) h) mod 16)) [0..<16]"

definition fnv_step :: "u64 \<Rightarrow> char \<Rightarrow> u64" where
  "fnv_step h b = (xor h (word_of_nat (of_char b))) * 0x100000001b3"

definition fnv1a :: "str \<Rightarrow> str" where
  "fnv1a bytes = hex16 (foldl fnv_step 0xcbf29ce484222325 bytes)"

definition payload_fields :: "(str \<Rightarrow> json option) \<Rightarrow> event_row list \<Rightarrow> nat" where
  "payload_fields from_str delta =
     sum_list (map count_fields (List.map_filter (\<lambda>e. from_str (ev_payload e)) delta))"

text \<open>The budget loop: drop the oldest event until the rest fits.\<close>

fun fit_delta :: "(str \<Rightarrow> json option) \<Rightarrow> nat \<Rightarrow> event_row list \<Rightarrow> event_row list \<times> bool" where
  "fit_delta from_str budget [] = ([], False)"
| "fit_delta from_str budget (e # es) =
     (if payload_fields from_str (e # es) \<le> budget then (e # es, False)
      else (fst (fit_delta from_str budget es), True))"

definition position_of :: "i64 \<Rightarrow> event_row list \<Rightarrow> nat" where
  "position_of i es = (let k = length (takeWhile (\<lambda>e. ev_id e \<noteq> i) es) in if k < length es then k else 0)"

definition derive_context_at ::
    "(str \<Rightarrow> json option) \<Rightarrow> (json \<Rightarrow> str) \<Rightarrow> event_row list \<Rightarrow> i64 option \<Rightarrow> nat \<Rightarrow> context_window" where
  "derive_context_at from_str to_str events at_event budget =
     (let scoped = filter (\<lambda>e. case at_event of None \<Rightarrow> True | Some a \<Rightarrow> ev_id e \<le> a) events;
          checkpoint = List.find (\<lambda>e. ev_topic e = ''workflow/checkpoint'') (rev scoped);
          delta_start = (case checkpoint of None \<Rightarrow> 0 | Some c \<Rightarrow> position_of (ev_id c) scoped + 1);
          delta = drop delta_start scoped;
          state_json = (case checkpoint of None \<Rightarrow> '''' | Some c \<Rightarrow> ev_payload c);
          state = (case from_str state_json of None \<Rightarrow> J_Null | Some v \<Rightarrow> v);
          digests = (case Option.bind (j_get state ''findings'') as_array of
                       None \<Rightarrow> [] | Some a \<Rightarrow> map (\<lambda>f. fnv1a (to_str f)) a);
          question = str_key state ''pending_question'';
          (kept, truncated) = (if budget > 0 then fit_delta from_str budget delta else (delta, False))
      in \<lparr>cw_checkpoint = checkpoint, cw_delta = kept, cw_digests = digests,
          cw_question = question, cw_truncated = truncated\<rparr>)"

definition derive_context ::
    "(str \<Rightarrow> json option) \<Rightarrow> (json \<Rightarrow> str) \<Rightarrow> event_row list \<Rightarrow> nat \<Rightarrow> context_window" where
  "derive_context from_str to_str events budget =
     derive_context_at from_str to_str events
       (case events of [] \<Rightarrow> None | _ \<Rightarrow> Some (ev_id (last events))) budget"

section \<open>Lemmas\<close>

abbreviation is_checkpoint :: "event_row \<Rightarrow> bool" where
  "is_checkpoint e \<equiv> ev_topic e = ''workflow/checkpoint''"

abbreviation in_scope :: "i64 option \<Rightarrow> event_row list \<Rightarrow> event_row list" where
  "in_scope at_event events \<equiv>
     filter (\<lambda>e. case at_event of None \<Rightarrow> True | Some a \<Rightarrow> ev_id e \<le> a) events"

text \<open>What a window is anchored on: the latest checkpoint in scope and what follows it.\<close>

definition anchored :: "event_row list \<Rightarrow> event_row option \<Rightarrow> event_row list \<Rightarrow> bool" where
  "anchored scoped cp base =
     (case cp of
        None \<Rightarrow> base = scoped \<and> (\<forall>e \<in> set scoped. \<not> is_checkpoint e)
      | Some c \<Rightarrow> is_checkpoint c \<and> (\<forall>e \<in> set base. \<not> is_checkpoint e) \<and> (\<exists>pre. scoped = pre @ c # base))"

lemma find_rev_Some:
  assumes "List.find P (rev xs) = Some c"
  obtains pre post where "xs = pre @ c # post" "P c" "\<forall>x \<in> set post. \<not> P x"
proof -
  from assms obtain i where i: "i < length xs" "P c" "c = rev xs ! i" "\<forall>j < i. \<not> P (rev xs ! j)"
    by (auto simp: find_Some_iff)
  have "rev xs = take i (rev xs) @ c # drop (Suc i) (rev xs)"
    using i(1,3) by (simp add: id_take_nth_drop)
  then have "rev (rev xs) = rev (drop (Suc i) (rev xs)) @ c # rev (take i (rev xs))"
    by (metis append.assoc append_Cons append_Nil rev.simps(2) rev_append)
  moreover have "\<forall>x \<in> set (rev (take i (rev xs))). \<not> P x"
    using i(1,4) by (auto simp: in_set_conv_nth)
  ultimately show thesis using that i(2) by simp
qed

lemma position_of_middle:
  assumes "distinct (map ev_id (pre @ c # post))"
  shows "position_of (ev_id c) (pre @ c # post) = length pre"
proof -
  have "takeWhile (\<lambda>e. ev_id e \<noteq> ev_id c) (pre @ c # post) = pre"
    using assms by (subst takeWhile_append2) (auto simp: image_iff)
  then show ?thesis by (simp add: position_of_def)
qed

lemma anchored_checkpoint:
  assumes "distinct (map ev_id scoped)"
    and "cp = List.find is_checkpoint (rev scoped)"
  shows "anchored scoped cp (drop (case cp of None \<Rightarrow> 0 | Some c \<Rightarrow> position_of (ev_id c) scoped + 1) scoped)"
proof (cases cp)
  case None
  then have "\<forall>e \<in> set scoped. \<not> is_checkpoint e"
    using assms(2) find_None_iff [of is_checkpoint "rev scoped"] by auto
  then show ?thesis by (simp add: None anchored_def)
next
  case (Some c)
  with assms(2) have "List.find is_checkpoint (rev scoped) = Some c" by simp
  then obtain pre post where split: "scoped = pre @ c # post" "is_checkpoint c" "\<forall>e \<in> set post. \<not> is_checkpoint e"
    by (rule find_rev_Some)
  then have "position_of (ev_id c) scoped = length pre"
    using position_of_middle assms(1) by simp
  then show ?thesis using Some split by (auto simp: anchored_def)
qed

lemma fit_delta_longest:
  obtains k where "k \<le> length delta" "fst (fit_delta from_str budget delta) = drop k delta"
    "snd (fit_delta from_str budget delta) = (0 < k)"
    "\<And>j. j < k \<Longrightarrow> budget < payload_fields from_str (drop j delta)"
    "payload_fields from_str (drop k delta) \<le> budget"
proof (induction delta arbitrary: thesis)
  case Nil
  show ?case by (rule Nil [of 0]) (simp_all add: payload_fields_def map_filter_def)
next
  case (Cons e es)
  show ?case
  proof (cases "payload_fields from_str (e # es) \<le> budget")
    case True
    then show ?thesis by (intro Cons.prems [of 0]) simp_all
  next
    case False
    obtain k where k: "k \<le> length es" "fst (fit_delta from_str budget es) = drop k es"
      "\<And>j. j < k \<Longrightarrow> budget < payload_fields from_str (drop j es)"
      "payload_fields from_str (drop k es) \<le> budget"
      by (rule Cons.IH) blast
    have "budget < payload_fields from_str (drop j (e # es))" if "j < Suc k" for j
      using that False k(3) by (cases j) auto
    then show ?thesis using False k by (intro Cons.prems [of "Suc k"]) simp_all
  qed
qed

lemma derive_context_at_sel:
  fixes events at_event
  defines "scoped \<equiv> in_scope at_event events"
    and "cp \<equiv> List.find is_checkpoint (rev (in_scope at_event events))"
  shows "cw_checkpoint (derive_context_at from_str to_str events at_event budget) = cp"
    and "(cw_delta (derive_context_at from_str to_str events at_event budget),
          cw_truncated (derive_context_at from_str to_str events at_event budget)) =
         (let base = drop (case cp of None \<Rightarrow> 0 | Some c \<Rightarrow> position_of (ev_id c) scoped + 1) scoped
          in if budget > 0 then fit_delta from_str budget base else (base, False))"
  unfolding scoped_def cp_def derive_context_at_def Let_def by (simp_all split: prod.splits)

lemma in_scope_prefix:
  assumes "sorted_wrt (<) (map ev_id (es @ new))" and "es \<noteq> []"
  shows "in_scope (Some (ev_id (last es))) (es @ new) = es"
proof -
  have "ev_id e \<le> ev_id (last es)" if "e \<in> set es" for e
    using assms that by (cases es rule: rev_cases) (auto simp: sorted_wrt_append)
  moreover have "\<not> ev_id e \<le> ev_id (last es)" if "e \<in> set new" for e
    using assms that by (auto simp: sorted_wrt_append not_le)
  ultimately show ?thesis by (simp add: filter_id_conv filter_empty_conv)
qed

section \<open>Properties\<close>




text \<open>
  Earlier windows are stable.  On a log whose ids increase strictly, the window derived
  at the last event of a prefix is the window that was derived when the log ended there,
  whatever was appended since, for every budget and every JSON reader and printer.
\<close>

lemma window_prefix_stable:
  assumes "sorted_wrt (<) (map ev_id (es @ new))" and "es \<noteq> []"
  shows "derive_context_at from_str to_str (es @ new) (Some (ev_id (last es))) budget =
         derive_context from_str to_str es budget"
proof -
  have "sorted_wrt (<) (map ev_id (es @ []))" using assms(1) by (simp add: sorted_wrt_append)
  with assms have "in_scope (Some (ev_id (last es))) (es @ new) = in_scope (Some (ev_id (last es))) es"
    using in_scope_prefix [of es new] in_scope_prefix [of es "[]"] by simp
  moreover have "(case es of [] \<Rightarrow> None | _ \<Rightarrow> Some (ev_id (last es))) = Some (ev_id (last es))"
    using assms(2) by (cases es) auto
  ultimately show ?thesis by (simp only: derive_context_def derive_context_at_def)
qed

definition demo_log :: "event_row list" where
  "demo_log = [\<lparr>ev_id = 1, ev_topic = ''workflow/checkpoint'', ev_payload = ''c''\<rparr>,
     \<lparr>ev_id = 2, ev_topic = ''note'', ev_payload = ''a''\<rparr>, \<lparr>ev_id = 5, ev_topic = ''note'', ev_payload = ''b''\<rparr>]"

definition demo_event :: event_row where
  "demo_event = \<lparr>ev_id = 9, ev_topic = ''note'', ev_payload = ''d''\<rparr>"

lemma window_prefix_stable_witness:
  "derive_context_at (\<lambda>_. Some J_Null) (\<lambda>_. ''null'') (demo_log @ [demo_event]) (Some 5) 1 =
   derive_context (\<lambda>_. Some J_Null) (\<lambda>_. ''null'') demo_log 1"
  using window_prefix_stable [of demo_log "[demo_event]"] by (simp add: demo_log_def demo_event_def)

text \<open>
  C23. What a window holds.  With distinct event ids, the window at an anchor carries the
  latest checkpoint at or before it and a final segment of the events after that checkpoint:
  all of them when the budget is zero, otherwise the longest segment whose payload fields fit
  the budget, and the window is marked truncated exactly when something was dropped.
\<close>

theorem window_exact:
  assumes "distinct (map ev_id events)" and "w = derive_context_at from_str to_str events at_event budget"
  shows "\<exists>base k. anchored (in_scope at_event events) (cw_checkpoint w) base \<and>
           k \<le> length base \<and> cw_delta w = drop k base \<and> cw_truncated w = (0 < k) \<and>
           (budget = 0 \<longrightarrow> k = 0) \<and>
           (budget > 0 \<longrightarrow> payload_fields from_str (cw_delta w) \<le> budget) \<and>
           (\<forall>j < k. budget < payload_fields from_str (drop j base))"
proof -
  let ?sc = "in_scope at_event events"
  let ?cp = "List.find is_checkpoint (rev ?sc)"
  let ?base = "drop (case ?cp of None \<Rightarrow> 0 | Some c \<Rightarrow> position_of (ev_id c) ?sc + 1) ?sc"
  have cp: "cw_checkpoint w = ?cp" using assms(2) derive_context_at_sel(1) by simp
  have "distinct (map ev_id ?sc)" using assms(1) by (simp add: distinct_map inj_on_def)
  then have anch: "anchored ?sc (cw_checkpoint w) ?base" unfolding cp by (rule anchored_checkpoint) simp
  have sel: "(cw_delta w, cw_truncated w) = (if budget > 0 then fit_delta from_str budget ?base else (?base, False))"
    using assms(2) derive_context_at_sel(2) by (simp add: Let_def)
  show ?thesis
  proof (cases "budget > 0")
    case True
    obtain k where k: "k \<le> length ?base" "fst (fit_delta from_str budget ?base) = drop k ?base"
      "snd (fit_delta from_str budget ?base) = (0 < k)"
      "\<And>j. j < k \<Longrightarrow> budget < payload_fields from_str (drop j ?base)"
      "payload_fields from_str (drop k ?base) \<le> budget"
      by (rule fit_delta_longest) blast
    from sel True have "cw_delta w = drop k ?base" "cw_truncated w = (0 < k)"
      using k(2,3) by (metis fst_conv snd_conv)+
    with k True anch show ?thesis by (intro exI [of _ ?base] exI [of _ k]) simp
  next
    case False
    with sel anch show ?thesis by (intro exI [of _ ?base] exI [of _ 0]) simp
  qed
qed

theorem window_exact_witness:
  "\<exists>base k. anchored demo_log (cw_checkpoint (derive_context_at (\<lambda>_. Some J_Null) (\<lambda>_. ''null'') demo_log None 1)) base \<and>
     cw_delta (derive_context_at (\<lambda>_. Some J_Null) (\<lambda>_. ''null'') demo_log None 1) = drop k base"
proof -
  have "distinct (map ev_id demo_log)" by (simp add: demo_log_def)
  from window_exact [OF this refl, where from_str = "\<lambda>_. Some J_Null" and to_str = "\<lambda>_. ''null''"
      and at_event = None and budget = 1]
  show ?thesis by auto
qed

end
