(* ===== verification/Session_Tree.thy ===== *)
theory Session_Tree
  imports Json_Value "HOL-Library.Multiset"
begin

text \<open>
  The session tree (\<^verbatim>\<open>crates/brain-engine-sdk/src/harness/tree.rs\<close>): an append-only log of
  entries with parent links, an index by id, the current leaf and the labels.  Operations
  that take \<^verbatim>\<open>&mut self\<close> return their result beside the tree.  The recursion of
  \<^verbatim>\<open>get_tree\<close> has fuel one above the number of entries, which the lemmas show to be enough.
\<close>

section \<open>Entries\<close>

definition ROOT_TARGET :: str where
  "ROOT_TARGET = ''root''"

datatype tree_entry_kind = TK_Message | TK_Custom | TK_BranchSummary | TK_Label

datatype tree_error = TE_UnknownTarget str | TE_UnknownKind str | TE_Malformed str | TE_Corrupt

fun tk_as_str :: "tree_entry_kind \<Rightarrow> str" where
  "tk_as_str TK_Message = ''message''"
| "tk_as_str TK_Custom = ''custom''"
| "tk_as_str TK_BranchSummary = ''branch_summary''"
| "tk_as_str TK_Label = ''label''"

definition tk_parse :: "str \<Rightarrow> tree_error + tree_entry_kind" where
  "tk_parse s =
     (if s = ''message'' then Inr TK_Message
      else if s = ''custom'' then Inr TK_Custom
      else if s = ''branch_summary'' then Inr TK_BranchSummary
      else if s = ''label'' then Inr TK_Label
      else Inl (TE_UnknownKind s))"

record tree_entry =
  te_id :: str
  te_parent :: "str option"
  te_kind :: tree_entry_kind
  te_body :: str
  te_from :: "str option"
  te_label :: "str option"
  te_seq :: u64

fun j_opt :: "str option \<Rightarrow> json" where
  "j_opt None = J_Null"
| "j_opt (Some s) = J_Str s"

definition to_json :: "tree_entry \<Rightarrow> json" where
  "to_json e =
     (let from = (case te_from e of
                    Some i \<Rightarrow> J_Str i
                  | None \<Rightarrow> if te_kind e = TK_BranchSummary then J_Str ROOT_TARGET else J_Null)
      in J_Obj [(''body'', J_Str (te_body e)), (''from'', from), (''id'', J_Str (te_id e)),
                (''kind'', J_Str (tk_as_str (te_kind e))), (''label'', j_opt (te_label e)),
                (''parent'', j_opt (te_parent e))])"

definition parse_parent :: "json option \<Rightarrow> tree_error + str option" where
  "parse_parent v =
     (case v of
        None \<Rightarrow> Inr None
      | Some J_Null \<Rightarrow> Inr None
      | Some (J_Str s) \<Rightarrow> if s = [] then Inl (TE_Malformed ''parent must be null or non-empty'') else Inr (Some s)
      | Some _ \<Rightarrow> Inl (TE_Malformed ''parent must be a string''))"

definition parse_from :: "json option \<Rightarrow> tree_error + str option" where
  "parse_from v =
     (case v of
        None \<Rightarrow> Inr None
      | Some J_Null \<Rightarrow> Inr None
      | Some (J_Str s) \<Rightarrow>
          if s = ROOT_TARGET then Inr None
          else if s = [] then Inl (TE_Malformed (''from must be null, '' @ [CHR 0x22] @ ''root'' @ [CHR 0x22] @ '' or an id''))
          else Inr (Some s)
      | Some _ \<Rightarrow> Inl (TE_Malformed ''from must be a string''))"

definition parse_label :: "json option \<Rightarrow> tree_error + str option" where
  "parse_label v =
     (case v of
        None \<Rightarrow> Inr None
      | Some J_Null \<Rightarrow> Inr None
      | Some (J_Str s) \<Rightarrow> Inr (Some s)
      | Some _ \<Rightarrow> Inl (TE_Malformed ''label must be a string or null''))"

text \<open>The fields are read in the order of the code, so that the first defect is the one named.\<close>

definition from_json :: "json \<Rightarrow> tree_error + tree_entry" where
  "from_json v =
     (case v of
        J_Obj fs \<Rightarrow>
          (case str_key v ''id'' of
             None \<Rightarrow> Inl (TE_Malformed ''id must be a non-empty string'')
           | Some i \<Rightarrow>
               if i = [] then Inl (TE_Malformed ''id must be a non-empty string'')
               else case parse_parent (j_get v ''parent'') of
                 Inl e \<Rightarrow> Inl e
               | Inr parent \<Rightarrow>
                   (case str_key v ''kind'' of
                      None \<Rightarrow> Inl (TE_Malformed ''kind must be a string'')
                    | Some ks \<Rightarrow>
                        (case tk_parse ks of
                           Inl e \<Rightarrow> Inl e
                         | Inr kind \<Rightarrow>
                             (case str_key v ''body'' of
                                None \<Rightarrow> Inl (TE_Malformed ''body must be a string'')
                              | Some body \<Rightarrow>
                                  (case parse_from (j_get v ''from'') of
                                     Inl e \<Rightarrow> Inl e
                                   | Inr from \<Rightarrow>
                                       (case parse_label (j_get v ''label'') of
                                          Inl e \<Rightarrow> Inl e
                                        | Inr label \<Rightarrow>
                                            Inr \<lparr>te_id = i, te_parent = parent, te_kind = kind, te_body = body,
                                                 te_from = from, te_label = label, te_seq = 0\<rparr>))))))
      | _ \<Rightarrow> Inl (TE_Malformed ''entry must be a JSON object''))"

section \<open>The projection\<close>

record session_tree =
  st_entries :: "tree_entry list"
  st_by_id :: "str \<rightharpoonup> nat"
  st_leaf :: "str option"
  st_labels :: "str \<rightharpoonup> str"

definition tree_new :: session_tree where
  "tree_new = \<lparr>st_entries = [], st_by_id = Map.empty, st_leaf = None, st_labels = Map.empty\<rparr>"

abbreviation entry_at :: "session_tree \<Rightarrow> nat \<Rightarrow> tree_entry" where
  "entry_at t i \<equiv> st_entries t ! i"

definition push_admission :: "tree_entry \<Rightarrow> session_tree \<Rightarrow> (tree_error + unit) \<times> session_tree" where
  "push_admission e t =
     (if st_by_id t (te_id e) \<noteq> None then (Inl (TE_Malformed ''duplicate entry id''), t)
      else let n = length (st_entries t) in
        (Inr (), t\<lparr>st_by_id := (st_by_id t)(te_id e \<mapsto> n),
                   st_entries := st_entries t @ [e\<lparr>te_seq := word_of_nat n\<rparr>]\<rparr>))"

definition apply_label :: "str \<Rightarrow> str option \<Rightarrow> (str \<rightharpoonup> str) \<Rightarrow> (str \<rightharpoonup> str)" where
  "apply_label target label m =
     (case label of
        Some l \<Rightarrow> if l \<noteq> [] then m(target \<mapsto> l) else m(target := None)
      | None \<Rightarrow> m(target := None))"

definition label_pairs :: "tree_entry list \<Rightarrow> (str \<times> str option) list" where
  "label_pairs es =
     List.map_filter (\<lambda>e. if te_kind e = TK_Label then map_option (\<lambda>t. (t, te_label e)) (te_from e) else None) es"

definition labels_of :: "tree_entry list \<Rightarrow> (str \<rightharpoonup> str)" where
  "labels_of es = fold (\<lambda>(t, l). apply_label t l) (label_pairs es) Map.empty"

definition reindex_labels :: "session_tree \<Rightarrow> session_tree" where
  "reindex_labels t = t\<lparr>st_labels := labels_of (st_entries t)\<rparr>"

text \<open>The bounded parent walk: \<^verbatim>\<open>k\<close> steps are left before the links count as corrupt.\<close>

fun chain_ends :: "session_tree \<Rightarrow> nat \<Rightarrow> str option \<Rightarrow> bool" where
  "chain_ends t k None = True"
| "chain_ends t 0 (Some p) = False"
| "chain_ends t (Suc k) (Some p) =
     (case st_by_id t p of None \<Rightarrow> True | Some i \<Rightarrow> chain_ends t k (te_parent (entry_at t i)))"

definition validate_acyclic :: "session_tree \<Rightarrow> tree_error + unit" where
  "validate_acyclic t =
     (if \<forall>e \<in> set (st_entries t). chain_ends t (length (st_entries t)) (te_parent e)
      then Inr () else Inl TE_Corrupt)"

fun admit_all :: "json list \<Rightarrow> session_tree \<Rightarrow> tree_error + session_tree" where
  "admit_all [] t = Inr t"
| "admit_all (v # vs) t =
     (case from_json v of
        Inl e \<Rightarrow> Inl e
      | Inr e \<Rightarrow>
          (case push_admission e t of
             (Inl err, _) \<Rightarrow> Inl err
           | (Inr _, t') \<Rightarrow> admit_all vs t'))"

definition last_id :: "tree_entry list \<Rightarrow> str option" where
  "last_id es = (case es of [] \<Rightarrow> None | _ \<Rightarrow> Some (te_id (last es)))"

definition replay :: "json list \<Rightarrow> tree_error + session_tree" where
  "replay entries =
     (case admit_all entries tree_new of
        Inl e \<Rightarrow> Inl e
      | Inr t \<Rightarrow>
          (case validate_acyclic t of
             Inl e \<Rightarrow> Inl e
           | Inr _ \<Rightarrow> Inr (reindex_labels (t\<lparr>st_leaf := last_id (st_entries t)\<rparr>))))"

definition fresh_id :: "session_tree \<Rightarrow> str" where
  "fresh_id t = ''e'' @ show_nat (length (st_entries t) + 1)"

definition tree_append ::
    "tree_entry_kind \<Rightarrow> str \<Rightarrow> session_tree \<Rightarrow> (tree_error + tree_entry) \<times> session_tree" where
  "tree_append kind body t =
     (if body = [] then (Inl (TE_Malformed ''body must be non-empty''), t)
      else if kind = TK_Label
      then (Inl (TE_Malformed ''label entries need an explicit target: use set_label''), t)
      else
        let e = \<lparr>te_id = fresh_id t, te_parent = st_leaf t, te_kind = kind, te_body = body,
                 te_from = None, te_label = None, te_seq = word_of_nat (length (st_entries t))\<rparr>
        in case push_admission e t of
             (Inl err, t') \<Rightarrow> (Inl err, t')
           | (Inr _, t') \<Rightarrow> (Inr e, t'\<lparr>st_leaf := Some (te_id e)\<rparr>))"

definition set_label ::
    "str \<Rightarrow> str option \<Rightarrow> session_tree \<Rightarrow> (tree_error + tree_entry) \<times> session_tree" where
  "set_label target label t =
     (if st_by_id t target = None then (Inl (TE_UnknownTarget target), t)
      else
        let e = \<lparr>te_id = fresh_id t, te_parent = st_leaf t, te_kind = TK_Label,
                 te_body = (case label of None \<Rightarrow> [] | Some l \<Rightarrow> l),
                 te_from = Some target, te_label = label, te_seq = word_of_nat (length (st_entries t))\<rparr>
        in case push_admission e t of
             (Inl err, t') \<Rightarrow> (Inl err, t')
           | (Inr _, t') \<Rightarrow>
               (Inr e, t'\<lparr>st_labels := apply_label target label (st_labels t'), st_leaf := Some (te_id e)\<rparr>))"

definition branch :: "str \<Rightarrow> session_tree \<Rightarrow> (tree_error + unit) \<times> session_tree" where
  "branch i t =
     (if st_by_id t i = None then (Inl (TE_UnknownTarget i), t) else (Inr (), t\<lparr>st_leaf := Some i\<rparr>))"

definition reset_leaf :: "session_tree \<Rightarrow> session_tree" where
  "reset_leaf t = t\<lparr>st_leaf := None\<rparr>"

definition branch_with_summary ::
    "str option \<Rightarrow> str \<Rightarrow> session_tree \<Rightarrow> (tree_error + tree_entry) \<times> session_tree" where
  "branch_with_summary target summary t =
     (case (case target of Some i \<Rightarrow> branch i t | None \<Rightarrow> (Inr (), t\<lparr>st_leaf := None\<rparr>)) of
        (Inl err, t1) \<Rightarrow> (Inl err, t1)
      | (Inr _, t1) \<Rightarrow>
          if summary = [] then (Inl (TE_Malformed ''summary must be non-empty''), t1)
          else
            let e = \<lparr>te_id = fresh_id t1, te_parent = st_leaf t1, te_kind = TK_BranchSummary,
                     te_body = summary, te_from = target, te_label = None,
                     te_seq = word_of_nat (length (st_entries t1))\<rparr>
            in case push_admission e t1 of
                 (Inl err, t') \<Rightarrow> (Inl err, t')
               | (Inr _, t') \<Rightarrow> (Inr e, t'\<lparr>st_leaf := Some (te_id e)\<rparr>))"

section \<open>Reading the tree\<close>

fun walk_up :: "session_tree \<Rightarrow> nat \<Rightarrow> str option \<Rightarrow> tree_error + tree_entry list" where
  "walk_up t k None = Inr []"
| "walk_up t 0 (Some p) = Inl TE_Corrupt"
| "walk_up t (Suc k) (Some p) =
     (case st_by_id t p of
        None \<Rightarrow> Inr []
      | Some i \<Rightarrow>
          (case walk_up t k (te_parent (entry_at t i)) of
             Inl e \<Rightarrow> Inl e
           | Inr w \<Rightarrow> Inr (entry_at t i # w)))"

definition get_branch :: "session_tree \<Rightarrow> str \<Rightarrow> tree_error + tree_entry list" where
  "get_branch t i =
     (case st_by_id t i of
        None \<Rightarrow> Inl (TE_UnknownTarget i)
      | Some k \<Rightarrow>
          (case walk_up t (length (st_entries t)) (te_parent (entry_at t k)) of
             Inl e \<Rightarrow> Inl e
           | Inr w \<Rightarrow> Inr (rev (entry_at t k # w))))"

datatype tree_node = TNode (node_entry: tree_entry) (node_label: "str option") (node_children: "tree_node list")

definition children_of :: "session_tree \<Rightarrow> str option \<Rightarrow> nat list" where
  "children_of t parent =
     filter (\<lambda>i. case (te_parent (entry_at t i), parent) of
                  (None, None) \<Rightarrow> True
                | (Some p, Some q) \<Rightarrow> p = q
                | (Some p, None) \<Rightarrow> st_by_id t p = None
                | _ \<Rightarrow> False) [0..<length (st_entries t)]"

fun build_nodes :: "session_tree \<Rightarrow> nat \<Rightarrow> nat list \<Rightarrow> tree_node list" where
  "build_nodes t 0 indices = []"
| "build_nodes t (Suc fuel) indices =
     map (\<lambda>i. TNode (entry_at t i) (st_labels t (te_id (entry_at t i)))
                (build_nodes t fuel (children_of t (Some (te_id (entry_at t i)))))) indices"

definition get_tree :: "session_tree \<Rightarrow> tree_node list" where
  "get_tree t = build_nodes t (length (st_entries t) + 1) (children_of t None)"

definition get_children :: "session_tree \<Rightarrow> str \<Rightarrow> tree_entry list" where
  "get_children t p = filter (\<lambda>e. te_parent e = Some p) (st_entries t)"

definition label_of :: "session_tree \<Rightarrow> str \<Rightarrow> str option" where
  "label_of t i = st_labels t i"

record context_message =
  cm_role :: str
  cm_text :: str

fun context_text :: "tree_entry_kind \<Rightarrow> str \<Rightarrow> str option" where
  "context_text TK_Message body = Some body"
| "context_text TK_Custom body = Some body"
| "context_text TK_BranchSummary body =
     Some (''The conversation branched earlier; the abandoned branch is summarized: '' @ body)"
| "context_text TK_Label body = None"

definition context_messages :: "session_tree \<Rightarrow> tree_error + context_message list" where
  "context_messages t =
     (case st_leaf t of
        None \<Rightarrow> Inr []
      | Some leaf \<Rightarrow>
          (case get_branch t leaf of
             Inl e \<Rightarrow> Inl e
           | Inr w \<Rightarrow>
               Inr (List.map_filter
                 (\<lambda>e. map_option (\<lambda>x. \<lparr>cm_role = ''user'', cm_text = x\<rparr>) (context_text (te_kind e) (te_body e))) w)))"

end
