(* ===== verification/Session_Tree_Proofs.thy ===== *)
theory Session_Tree_Proofs
  imports Session_Tree
begin

text \<open>
  Lemmas on the session tree: the index is the inverse of the entry ids, the parent links of
  a validated tree end, the recursion of \<^verbatim>\<open>get_tree\<close> visits every entry once, and a branch is
  a path of parent links.
\<close>

section \<open>The index\<close>

definition wf_index :: "session_tree \<Rightarrow> bool" where
  "wf_index t \<longleftrightarrow>
     (\<forall>k < length (st_entries t). st_by_id t (te_id (entry_at t k)) = Some k) \<and>
     (\<forall>p i. st_by_id t p = Some i \<longrightarrow> i < length (st_entries t) \<and> te_id (entry_at t i) = p)"

lemma wf_indexD:
  "wf_index t \<Longrightarrow> k < length (st_entries t) \<Longrightarrow> st_by_id t (te_id (entry_at t k)) = Some k"
  "wf_index t \<Longrightarrow> st_by_id t p = Some i \<Longrightarrow> i < length (st_entries t)"
  "wf_index t \<Longrightarrow> st_by_id t p = Some i \<Longrightarrow> te_id (entry_at t i) = p"
  by (auto simp: wf_index_def)

lemma wf_index_new [simp]: "wf_index tree_new"
  by (simp add: wf_index_def tree_new_def)

lemma wf_index_update [simp]:
  "wf_index (t\<lparr>st_leaf := l\<rparr>) = wf_index t" "wf_index (t\<lparr>st_labels := m\<rparr>) = wf_index t"
  by (simp_all add: wf_index_def)

text \<open>Two trees with the same entries and sound indices have the same index.\<close>

lemma wf_index_iff:
  "wf_index t \<Longrightarrow> st_by_id t p = Some i \<longleftrightarrow> i < length (st_entries t) \<and> te_id (entry_at t i) = p"
  by (auto simp: wf_index_def)

lemma wf_index_unique:
  assumes "wf_index t" "wf_index t'" "st_entries t = st_entries t'"
  shows "st_by_id t = st_by_id t'"
proof
  fix p
  have "st_by_id t p = Some i \<longleftrightarrow> st_by_id t' p = Some i" for i
    using assms by (simp add: wf_index_iff)
  then show "st_by_id t p = st_by_id t' p"
    by (metis option.exhaust)
qed

lemma push_admission_Inr:
  assumes "push_admission e t = (Inr u, t')" and "wf_index t"
  shows "wf_index t'" "st_entries t' = st_entries t @ [e\<lparr>te_seq := word_of_nat (length (st_entries t))\<rparr>]"
    "st_leaf t' = st_leaf t" "st_labels t' = st_labels t" "st_by_id t (te_id e) = None"
    "st_by_id t' = (st_by_id t)(te_id e \<mapsto> length (st_entries t))"
proof -
  from assms(1) have new: "st_by_id t (te_id e) = None"
    and t': "t' = t\<lparr>st_by_id := (st_by_id t)(te_id e \<mapsto> length (st_entries t)),
                    st_entries := st_entries t @ [e\<lparr>te_seq := word_of_nat (length (st_entries t))\<rparr>]\<rparr>"
    by (auto simp: push_admission_def Let_def split: if_splits)
  have "te_id (entry_at t k) \<noteq> te_id e" if "k < length (st_entries t)" for k
    using wf_indexD(1) [OF assms(2) that] new by auto
  then show "wf_index t'"
    using assms(2) by (auto simp: t' wf_index_def nth_append less_Suc_eq)
qed (use assms in \<open>auto simp: push_admission_def Let_def split: if_splits\<close>)

section \<open>Parent links\<close>

definition pidx :: "session_tree \<Rightarrow> nat \<Rightarrow> nat option" where
  "pidx t i = Option.bind (te_parent (entry_at t i)) (st_by_id t)"

abbreviation up :: "session_tree \<Rightarrow> nat \<Rightarrow> nat \<Rightarrow> bool" where
  "up t i j \<equiv> pidx t i = Some j"

inductive at_depth :: "session_tree \<Rightarrow> nat \<Rightarrow> nat \<Rightarrow> bool" for t where
  root: "pidx t i = None \<Longrightarrow> at_depth t i 0"
| child: "pidx t i = Some j \<Longrightarrow> at_depth t j d \<Longrightarrow> at_depth t i (Suc d)"

inductive_cases at_depth_SucE: "at_depth t i (Suc d)"
inductive_cases at_depth_0E: "at_depth t i 0"

lemma at_depth_fun: "at_depth t i d \<Longrightarrow> at_depth t i d' \<Longrightarrow> d = d'"
proof (induction arbitrary: d' rule: at_depth.induct)
  case (root i)
  then show ?case by (auto elim: at_depth.cases)
next
  case (child i j d)
  from child.prems child.hyps(1) obtain d'' where "d' = Suc d''" "at_depth t j d''"
    by (auto elim: at_depth.cases)
  with child.IH show ?case by simp
qed

lemma pidx_bound: "wf_index t \<Longrightarrow> pidx t i = Some j \<Longrightarrow> j < length (st_entries t)"
  by (auto simp: pidx_def bind_eq_Some_conv dest: wf_indexD(2))

lemma chain_ends_depth:
  "chain_ends t k (te_parent (entry_at t i)) \<Longrightarrow> \<exists>d \<le> k. at_depth t i d"
proof (induction k arbitrary: i)
  case 0
  then have "te_parent (entry_at t i) = None" by (cases "te_parent (entry_at t i)") auto
  then show ?case by (auto simp: pidx_def intro: at_depth.root)
next
  case (Suc k)
  show ?case
  proof (cases "pidx t i")
    case None
    then show ?thesis by (auto intro: at_depth.root)
  next
    case (Some j)
    then have "chain_ends t k (te_parent (entry_at t j))"
      using Suc.prems by (auto simp: pidx_def bind_eq_Some_conv)
    then obtain d where "d \<le> k" "at_depth t j d" using Suc.IH by blast
    with Some show ?thesis by (intro exI [of _ "Suc d"]) (auto intro: at_depth.child)
  qed
qed

lemma walk_up_chain_ends: "(\<exists>w. walk_up t k c = Inr w) \<longleftrightarrow> chain_ends t k c"
  by (induction t k c rule: chain_ends.induct) (auto split: option.splits sum.splits)

lemma walk_up_Inl: "walk_up t k c = Inl e \<Longrightarrow> e = TE_Corrupt"
  by (induction t k c rule: chain_ends.induct) (auto split: option.splits sum.splits)

definition acyclic_tree :: "session_tree \<Rightarrow> bool" where
  "acyclic_tree t \<longleftrightarrow> (\<forall>i < length (st_entries t). \<exists>d \<le> length (st_entries t). at_depth t i d)"

lemma validate_acyclic_depth: "validate_acyclic t = Inr u \<Longrightarrow> acyclic_tree t"
  unfolding acyclic_tree_def
  by (auto simp: validate_acyclic_def split: if_splits intro!: chain_ends_depth)

section \<open>The recursion of the tree view\<close>

fun flat_node :: "tree_node \<Rightarrow> tree_entry list" where
  "flat_node (TNode e l cs) = e # concat (map flat_node cs)"

definition kids :: "session_tree \<Rightarrow> nat \<Rightarrow> nat list" where
  "kids t i = children_of t (Some (te_id (entry_at t i)))"

fun flat_ix :: "session_tree \<Rightarrow> nat \<Rightarrow> nat list \<Rightarrow> nat list" where
  "flat_ix t 0 is = []"
| "flat_ix t (Suc f) is = concat (map (\<lambda>i. i # flat_ix t f (kids t i)) is)"

lemma flat_build: "concat (map flat_node (build_nodes t f is)) = map (entry_at t) (flat_ix t f is)"
proof (induction f arbitrary: "is")
  case (Suc f)
  show ?case by (induction "is") (simp_all add: Suc.IH kids_def)
qed simp

lemma set_kids: "wf_index t \<Longrightarrow> i < length (st_entries t) \<Longrightarrow>
    set (kids t i) = {k. k < length (st_entries t) \<and> up t k i}"
  by (auto simp: kids_def children_of_def pidx_def bind_eq_Some_conv wf_indexD(1)
      dest: wf_indexD(3) split: option.splits)

lemma set_roots: "set (children_of t None) = {k. k < length (st_entries t) \<and> pidx t k = None}"
proof -
  have "pidx t k = None \<longleftrightarrow> (case te_parent (entry_at t k) of None \<Rightarrow> True | Some p \<Rightarrow> st_by_id t p = None)" for k
    by (cases "te_parent (entry_at t k)") (simp_all add: pidx_def)
  then show ?thesis by (auto simp: children_of_def split: option.splits)
qed

lemma distinct_children [simp]: "distinct (children_of t p)" "distinct (kids t i)"
  by (simp_all add: children_of_def kids_def)

lemma up_steps_fun: "(up t ^^ m) k i \<Longrightarrow> (up t ^^ m) k j \<Longrightarrow> i = j"
proof (induction m arbitrary: i j)
  case (Suc m)
  from Suc.prems obtain a b where "(up t ^^ m) k a" "up t a i" "(up t ^^ m) k b" "up t b j"
    by (auto elim!: relpowp_Suc_E)
  with Suc.IH [of a b] show ?case by simp
qed simp

lemma up_steps_depth: "(up t ^^ m) k i \<Longrightarrow> at_depth t i d \<Longrightarrow> at_depth t k (d + m)"
proof (induction m arbitrary: i d)
  case (Suc m)
  from Suc.prems(1) obtain j where "(up t ^^ m) k j" "up t j i" by (rule relpowp_Suc_E)
  with Suc.IH [of j "Suc d"] Suc.prems(2) show ?case by (simp add: at_depth.child)
qed simp

lemma up_steps_bound:
  "wf_index t \<Longrightarrow> k < length (st_entries t) \<Longrightarrow> (up t ^^ m) k i \<Longrightarrow> i < length (st_entries t)"
  by (cases m) (auto dest: pidx_bound elim!: relpowp_Suc_E)

lemma at_depth_root: "at_depth t k d \<Longrightarrow> \<exists>r. (up t ^^ d) k r \<and> pidx t r = None"
proof (induction rule: at_depth.induct)
  case (root i)
  then show ?case by (intro exI [of _ i]) simp
next
  case (child i j d)
  then show ?case by (meson relpowp_Suc_I2)
qed

lemma set_flat_ix:
  assumes "wf_index t"
  shows "set is \<subseteq> {..<length (st_entries t)} \<Longrightarrow>
    set (flat_ix t f is) = {k. k < length (st_entries t) \<and> (\<exists>m < f. \<exists>i \<in> set is. (up t ^^ m) k i)}"
proof (induction f arbitrary: "is")
  case (Suc f)
  let ?n = "length (st_entries t)"
  have kids: "set (flat_ix t f (kids t i)) = {k. k < ?n \<and> (\<exists>m < f. (up t ^^ Suc m) k i)}" if "i < ?n" for i
  proof -
    have "set (flat_ix t f (kids t i)) = {k. k < ?n \<and> (\<exists>m < f. \<exists>j \<in> set (kids t i). (up t ^^ m) k j)}"
      by (rule Suc.IH) (auto simp: set_kids [OF assms that])
    also have "\<dots> = {k. k < ?n \<and> (\<exists>m < f. (up t ^^ Suc m) k i)}"
      by (auto simp: set_kids [OF assms that] intro: up_steps_bound [OF assms])
    finally show ?thesis .
  qed
  have "k \<in> set (flat_ix t (Suc f) is) \<longleftrightarrow> k < ?n \<and> (\<exists>m < Suc f. \<exists>i \<in> set is. (up t ^^ m) k i)" for k
  proof -
    have "k \<in> set (flat_ix t (Suc f) is) \<longleftrightarrow> (\<exists>i \<in> set is. k = i \<or> k \<in> set (flat_ix t f (kids t i)))"
      by auto
    also have "\<dots> \<longleftrightarrow> (\<exists>i \<in> set is. k < ?n \<and> (k = i \<or> (\<exists>m < f. (up t ^^ Suc m) k i)))"
      by (rule bex_cong [OF refl]) (use Suc.prems kids in \<open>auto simp del: relpowp.simps\<close>)
    also have "\<dots> \<longleftrightarrow> k < ?n \<and> (\<exists>m < Suc f. \<exists>i \<in> set is. (up t ^^ m) k i)"
      by (auto simp: Ex_less_Suc2)
    finally show ?thesis .
  qed
  then show ?case by blast
qed simp

lemma distinct_flat_ix:
  assumes "wf_index t"
  shows "set is \<subseteq> {..<length (st_entries t)} \<Longrightarrow> distinct is \<Longrightarrow> \<forall>i \<in> set is. at_depth t i d \<Longrightarrow>
    distinct (flat_ix t f is)"
proof (induction f arbitrary: "is" d)
  case (Suc f)
  let ?n = "length (st_entries t)"
  let ?sub = "\<lambda>i. i # flat_ix t f (kids t i)"
  have kid: "set (kids t i) \<subseteq> {..<?n}" "\<forall>j \<in> set (kids t i). at_depth t j (Suc d)" if "i \<in> set is" for i
  proof -
    have i: "i < ?n" using Suc.prems(1) that by auto
    show "set (kids t i) \<subseteq> {..<?n}" "\<forall>j \<in> set (kids t i). at_depth t j (Suc d)"
      using Suc.prems(3) that by (auto simp: set_kids [OF assms i] intro: at_depth.child)
  qed
  have below: "\<exists>m. (up t ^^ m) k i" if i: "i \<in> set is" and k: "k \<in> set (?sub i)" for i k
  proof (cases "k = i")
    case True
    then show ?thesis by (intro exI [of _ 0]) simp
  next
    case False
    then have "k \<in> set (flat_ix t f (kids t i))" using k by simp
    then obtain m j where "(up t ^^ m) k j" "j \<in> set (kids t i)"
      by (auto simp: set_flat_ix [OF assms kid(1) [OF i]])
    then have "(up t ^^ Suc m) k i"
      using Suc.prems(1) i set_kids [OF assms, of i] by (auto intro!: relcomppI)
    then show ?thesis ..
  qed
  have deep: "k \<noteq> i" if i: "i \<in> set is" and k: "k \<in> set (flat_ix t f (kids t i))" for i k
  proof -
    from k obtain m j where "(up t ^^ m) k j" "j \<in> set (kids t i)"
      by (auto simp: set_flat_ix [OF assms kid(1) [OF i]])
    with kid(2) [OF i] have "at_depth t k (Suc d + m)" by (blast intro: up_steps_depth)
    moreover have "at_depth t i d" using Suc.prems(3) i by blast
    ultimately show ?thesis by (auto dest: at_depth_fun)
  qed
  have apart: "i = i'"
    if i: "i \<in> set is" "i' \<in> set is" and ks: "k \<in> set (?sub i)" "k \<in> set (?sub i')" for i i' k
  proof -
    obtain m m' where m: "(up t ^^ m) k i" "(up t ^^ m') k i'"
      using below [OF i(1) ks(1)] below [OF i(2) ks(2)] by blast
    have "at_depth t k (d + m)" "at_depth t k (d + m')"
      using m Suc.prems(3) i by (blast intro: up_steps_depth)+
    then have "m = m'" by (auto dest: at_depth_fun)
    with m show ?thesis by (blast intro: up_steps_fun)
  qed
  have own: "distinct (?sub i)" if "i \<in> set is" for i
    using deep [OF that] Suc.IH [OF kid(1) [OF that] _ kid(2) [OF that]] by auto
  have "inj_on ?sub (set is)" by (rule inj_onI) simp
  then have "distinct (map ?sub is)" using Suc.prems(2) by (simp add: distinct_map)
  moreover have "distinct ys" if "ys \<in> set (map ?sub is)" for ys
    using that own unfolding set_map by (elim imageE) simp
  moreover have "set ys \<inter> set zs = {}" if yz: "ys \<in> set (map ?sub is)" "zs \<in> set (map ?sub is)" "ys \<noteq> zs" for ys zs
  proof -
    from yz(1,2) obtain i i' where "i \<in> set is" "ys = ?sub i" "i' \<in> set is" "zs = ?sub i'"
      unfolding set_map by (elim imageE)
    then show ?thesis using apart [of i i'] yz(3) by blast
  qed
  ultimately show ?case unfolding flat_ix.simps by (rule distinct_concat)
qed simp

definition node_entries :: "tree_node list \<Rightarrow> tree_entry list" where
  "node_entries ns = concat (map flat_node ns)"

lemma get_tree_entries:
  assumes "wf_index t" and "acyclic_tree t"
  shows "mset (node_entries (get_tree t)) = mset (st_entries t)"
proof -
  let ?n = "length (st_entries t)"
  let ?ix = "flat_ix t (?n + 1) (children_of t None)"
  have sub: "set (children_of t None) \<subseteq> {..<?n}" by (auto simp: set_roots)
  have "k \<in> set ?ix" if k: "k < ?n" for k
  proof -
    obtain d where "d \<le> ?n" "at_depth t k d" using assms(2) k by (auto simp: acyclic_tree_def)
    moreover from this(2) obtain r where "(up t ^^ d) k r" "pidx t r = None" using at_depth_root by blast
    moreover from this(1) have "r < ?n" using up_steps_bound [OF assms(1) k] by blast
    ultimately have "d < ?n + 1" "r \<in> set (children_of t None)" "(up t ^^ d) k r"
      by (simp_all add: set_roots)
    then show ?thesis using k unfolding set_flat_ix [OF assms(1) sub] by blast
  qed
  moreover have "set ?ix \<subseteq> {..<?n}" unfolding set_flat_ix [OF assms(1) sub] by blast
  ultimately have "set ?ix = set [0..<?n]" by (auto simp del: flat_ix.simps)
  moreover have "distinct ?ix"
    by (rule distinct_flat_ix [OF assms(1) sub, of 0]) (auto simp: set_roots intro: at_depth.root)
  ultimately have "mset ?ix = mset [0..<?n]"
    using set_eq_iff_mset_eq_distinct [of ?ix "[0..<?n]"] by (simp only: distinct_upt simp_thms)
  then have "mset (map (entry_at t) ?ix) = mset (map (entry_at t) [0..<?n])" by simp
  then show ?thesis unfolding node_entries_def get_tree_def flat_build by (simp only: map_nth)
qed

text \<open>The fuel of the view is enough: more of it changes nothing.\<close>

lemma build_fuel_Suc:
  assumes "wf_index t" and "acyclic_tree t"
  shows "set is \<subseteq> {..<length (st_entries t)} \<Longrightarrow> \<forall>i \<in> set is. at_depth t i d \<Longrightarrow>
    length (st_entries t) < d + f \<Longrightarrow> build_nodes t (Suc f) is = build_nodes t f is"
proof (induction f arbitrary: "is" d)
  case 0
  then have "is = []"
    using assms(2) by (cases "is") (force simp: acyclic_tree_def dest: at_depth_fun)+
  then show ?case by simp
next
  case (Suc f)
  have "build_nodes t (Suc f) (kids t i) = build_nodes t f (kids t i)" if "i \<in> set is" for i
  proof (rule Suc.IH [of _ "Suc d"])
    have i: "i < length (st_entries t)" using Suc.prems(1) that by auto
    show "set (kids t i) \<subseteq> {..<length (st_entries t)}" "\<forall>j \<in> set (kids t i). at_depth t j (Suc d)"
      using Suc.prems(2) that by (auto simp: set_kids [OF assms(1) i] intro: at_depth.child)
    show "length (st_entries t) < Suc d + f" using Suc.prems(3) by simp
  qed
  then show ?case by (simp add: kids_def del: build_nodes.simps(2)) (simp add: kids_def)
qed

lemma build_fuel:
  assumes "wf_index t" and "acyclic_tree t" and "length (st_entries t) < f"
  shows "build_nodes t f (children_of t None) = get_tree t"
proof -
  have "build_nodes t (length (st_entries t) + 1 + g) (children_of t None) = get_tree t" for g
  proof (induction g)
    case (Suc g)
    have "build_nodes t (Suc (length (st_entries t) + 1 + g)) (children_of t None) =
        build_nodes t (length (st_entries t) + 1 + g) (children_of t None)"
      by (rule build_fuel_Suc [OF assms(1,2), of _ 0]) (auto simp: set_roots intro: at_depth.root)
    with Suc.IH show ?case by simp
  qed (simp add: get_tree_def)
  from this [of "f - (length (st_entries t) + 1)"] assms(3) show ?thesis by simp
qed

section \<open>Branches\<close>

fun parent_path :: "tree_entry list \<Rightarrow> bool" where
  "parent_path (a # b # w) \<longleftrightarrow> te_parent b = Some (te_id a) \<and> parent_path (b # w)"
| "parent_path _ \<longleftrightarrow> True"

definition starts_branch :: "session_tree \<Rightarrow> tree_entry \<Rightarrow> bool" where
  "starts_branch t e \<longleftrightarrow> (case te_parent e of None \<Rightarrow> True | Some p \<Rightarrow> st_by_id t p = None)"

lemma parent_path_snoc:
  "parent_path (w @ [e]) \<longleftrightarrow> parent_path w \<and> (w \<noteq> [] \<longrightarrow> te_parent e = Some (te_id (last w)))"
  by (induction w rule: parent_path.induct) auto

lemma walk_up_path:
  assumes "wf_index t"
  shows "walk_up t k (te_parent e) = Inr w \<Longrightarrow>
    parent_path (rev (e # w)) \<and> starts_branch t (hd (rev (e # w)))"
proof (induction k arbitrary: e w)
  case 0
  then have "te_parent e = None" "w = []" by (cases "te_parent e"; simp)+
  then show ?case by (simp add: starts_branch_def)
next
  case (Suc k)
  show ?case
  proof (cases "te_parent e")
    case None
    with Suc.prems show ?thesis by (simp add: starts_branch_def)
  next
    case (Some p)
    show ?thesis
    proof (cases "st_by_id t p")
      case None
      with Some Suc.prems show ?thesis by (simp add: starts_branch_def)
    next
      case (Some i)
      with \<open>te_parent e = Some p\<close> Suc.prems obtain w' where
        w': "walk_up t k (te_parent (entry_at t i)) = Inr w'" "w = entry_at t i # w'"
        by (auto split: sum.splits)
      from Suc.IH [OF w'(1)] w'(2) have "parent_path (rev w)" "starts_branch t (hd (rev w))" by simp_all
      moreover have "te_id (last (rev w)) = p" "rev w \<noteq> []"
        using w'(2) wf_indexD(3) [OF assms Some] by simp_all
      ultimately have "parent_path (rev w @ [e]) \<and> starts_branch t (hd (rev w @ [e]))"
        using \<open>te_parent e = Some p\<close> by (simp only: parent_path_snoc hd_append2) simp
      then show ?thesis by simp
    qed
  qed
qed

lemma walk_up_entries:
  assumes "wf_index t"
  shows "walk_up t k c = Inr w \<Longrightarrow> set w \<subseteq> set (st_entries t)"
proof (induction k arbitrary: c w)
  case 0
  then show ?case by (cases c) auto
next
  case (Suc k)
  then show ?case
    using wf_indexD(2) [OF assms] by (cases c) (auto split: option.splits sum.splits, blast)
qed

lemma get_branch_path:
  assumes "wf_index t" and "get_branch t i = Inr w"
  shows "w \<noteq> [] \<and> te_id (last w) = i \<and> parent_path w \<and> starts_branch t (hd w)"
proof -
  from assms(2) obtain k u where k: "st_by_id t i = Some k"
    and u: "walk_up t (length (st_entries t)) (te_parent (entry_at t k)) = Inr u" "w = rev (entry_at t k # u)"
    by (auto simp: get_branch_def split: option.splits sum.splits)
  show ?thesis using walk_up_path [OF assms(1) u(1)] wf_indexD(3) [OF assms(1) k] u(2) by simp
qed

end
