(* ===== verification/Session_Tree_Properties.thy ===== *)
theory Session_Tree_Properties
  imports Session_Tree_Proofs
begin

text \<open>
  The operations of the session tree as a step relation, the invariant of the trees they
  grow, replay of a grown tree from its own log, and the properties of the component.
\<close>

section \<open>Steps\<close>

inductive tree_step :: "session_tree \<Rightarrow> session_tree \<Rightarrow> bool" where
  append: "tree_append kind body t = (r, t') \<Longrightarrow> tree_step t t'"
| label: "set_label target l t = (r, t') \<Longrightarrow> tree_step t t'"
| branch: "branch i t = (u, t') \<Longrightarrow> tree_step t t'"
| reset: "tree_step t (reset_leaf t)"
| summary: "branch_with_summary tg s t = (r, t') \<Longrightarrow> tree_step t t'"

abbreviation tree_reach :: "session_tree \<Rightarrow> bool" where
  "tree_reach t \<equiv> tree_step\<^sup>*\<^sup>* tree_new t"

text \<open>A log the operations write: numbered ids, and links to earlier entries only.\<close>

definition refers_back :: "tree_entry list \<Rightarrow> str option \<Rightarrow> bool" where
  "refers_back es r = (case r of None \<Rightarrow> True | Some p \<Rightarrow> p \<in> te_id ` set es)"

definition entry_fits :: "tree_entry list \<Rightarrow> tree_entry \<Rightarrow> bool" where
  "entry_fits es e \<longleftrightarrow>
     te_id e = ''e'' @ show_nat (length es + 1) \<and> te_seq e = word_of_nat (length es) \<and>
     refers_back es (te_parent e) \<and> refers_back es (te_from e)"

definition log_ok :: "tree_entry list \<Rightarrow> bool" where
  "log_ok es \<longleftrightarrow> (\<forall>k < length es. entry_fits (take k es) (es ! k))"

definition grown :: "session_tree \<Rightarrow> bool" where
  "grown t \<longleftrightarrow> wf_index t \<and> log_ok (st_entries t) \<and> refers_back (st_entries t) (st_leaf t) \<and>
     st_labels t = labels_of (st_entries t)"

lemma log_ok_Nil [simp]: "log_ok []"
  by (simp add: log_ok_def)

lemma log_ok_snoc: "log_ok (es @ [e]) \<longleftrightarrow> log_ok es \<and> entry_fits es e"
  by (auto simp: log_ok_def nth_append less_Suc_eq)

lemma grown_new: "grown tree_new"
  by (auto simp: grown_def tree_new_def wf_index_def refers_back_def labels_of_def label_pairs_def map_filter_def)

lemma by_id_None_iff: "wf_index t \<Longrightarrow> st_by_id t p = None \<longleftrightarrow> p \<notin> te_id ` set (st_entries t)"
proof -
  assume "wf_index t"
  then have "st_by_id t p = None \<longleftrightarrow> \<not> (\<exists>i < length (st_entries t). te_id (entry_at t i) = p)"
    using wf_index_iff [of t p] by (metis not_Some_eq)
  moreover have "p \<in> te_id ` set (st_entries t) \<longleftrightarrow> (\<exists>i < length (st_entries t). te_id (entry_at t i) = p)"
    by (force simp: set_conv_nth)
  ultimately show ?thesis by simp
qed

lemma refers_back_mono: "refers_back es r \<Longrightarrow> refers_back (es @ es') r"
  by (auto simp: refers_back_def split: option.splits)

lemma log_ids:
  assumes "log_ok es" and "e \<in> set es"
  shows "\<exists>k < length es. te_id e = ''e'' @ show_nat (k + 1)"
proof -
  from assms(2) obtain k where "k < length es" "e = es ! k" by (auto simp: in_set_conv_nth)
  with assms(1) show ?thesis by (auto simp: log_ok_def entry_fits_def)
qed

lemma fresh_id_new:
  assumes "log_ok (st_entries t)"
  shows "fresh_id t \<notin> te_id ` set (st_entries t)"
  using log_ids [OF assms] show_nat_inj by (fastforce simp: fresh_id_def)

lemma labels_of_snoc:
  "labels_of (es @ [e]) =
     (if te_kind e = TK_Label
      then (case te_from e of None \<Rightarrow> labels_of es | Some tg \<Rightarrow> apply_label tg (te_label e) (labels_of es))
      else labels_of es)"
  by (simp add: labels_of_def label_pairs_def map_filter_def split: option.splits)

lemma grown_push:
  assumes "grown t" and "entry_fits (st_entries t) e"
  obtains t' where "push_admission e t = (Inr (), t')" "wf_index t'" "st_entries t' = st_entries t @ [e]"
    "log_ok (st_entries t')" "st_leaf t' = st_leaf t" "st_labels t' = st_labels t"
proof -
  have wf: "wf_index t" and log: "log_ok (st_entries t)" using assms(1) by (simp_all add: grown_def)
  have "te_id e = fresh_id t" using assms(2) by (simp add: entry_fits_def fresh_id_def)
  then have "st_by_id t (te_id e) = None" using by_id_None_iff [OF wf] fresh_id_new [OF log] by simp
  then obtain t' where t': "push_admission e t = (Inr (), t')"
    by (simp add: push_admission_def Let_def)
  have "e\<lparr>te_seq := word_of_nat (length (st_entries t))\<rparr> = e"
    using assms(2) by (simp add: entry_fits_def)
  then show thesis
    using that [OF t'] push_admission_Inr [OF t' wf] log assms(2) by (simp add: log_ok_snoc)
qed

section \<open>The operations grow the tree\<close>

lemma grown_leaf: "grown t \<Longrightarrow> st_by_id t i \<noteq> None \<Longrightarrow> grown (t\<lparr>st_leaf := Some i\<rparr>)"
  using by_id_None_iff [of t i] by (simp add: grown_def refers_back_def)

lemma grown_no_leaf: "grown t \<Longrightarrow> grown (t\<lparr>st_leaf := None\<rparr>)"
  by (simp add: grown_def refers_back_def)

lemma grown_append_entry:
  assumes "grown t" and "entry_fits (st_entries t) e" and "push_admission e t = (r, t')"
    and "labels_of (st_entries t @ [e]) = m"
  shows "r = Inr ()" "grown (t'\<lparr>st_labels := m, st_leaf := Some (te_id e)\<rparr>)"
    "st_entries t' = st_entries t @ [e]" "st_labels t' = st_labels t"
proof -
  obtain t'' where "push_admission e t = (Inr (), t'')" "wf_index t''" "st_entries t'' = st_entries t @ [e]"
    "log_ok (st_entries t'')" "st_leaf t'' = st_leaf t" "st_labels t'' = st_labels t"
    by (rule grown_push [OF assms(1,2)])
  with assms(3,4)
  show "r = Inr ()" "grown (t'\<lparr>st_labels := m, st_leaf := Some (te_id e)\<rparr>)"
    "st_entries t' = st_entries t @ [e]" "st_labels t' = st_labels t"
    by (simp_all add: grown_def refers_back_def)
qed

lemma tree_append_grown:
  assumes "tree_append kind body t = (r, t')" and "grown t"
  shows "grown t' \<and> (\<exists>es. st_entries t' = st_entries t @ es)"
proof (cases "body = [] \<or> kind = TK_Label")
  case True
  then have "t' = t" using assms(1) by (auto simp: tree_append_def split: if_splits)
  then show ?thesis using assms(2) by simp
next
  case False
  let ?e = "\<lparr>te_id = fresh_id t, te_parent = st_leaf t, te_kind = kind, te_body = body,
             te_from = None, te_label = None, te_seq = word_of_nat (length (st_entries t))\<rparr>"
  obtain u t1 where push: "push_admission ?e t = (u, t1)" by (meson surj_pair)
  have fits: "entry_fits (st_entries t) ?e"
    using assms(2) by (simp add: entry_fits_def fresh_id_def grown_def refers_back_def)
  have m: "labels_of (st_entries t @ [?e]) = st_labels t"
    using False assms(2) by (simp add: labels_of_snoc grown_def)
  note g = grown_append_entry [OF assms(2) fits push m]
  have "t' = t1\<lparr>st_labels := st_labels t, st_leaf := Some (te_id ?e)\<rparr>"
    using assms(1) False push g(1,4) by (auto simp: tree_append_def)
  with g(2,3) show ?thesis by simp
qed

lemma set_label_grown:
  assumes "set_label target l t = (r, t')" and "grown t"
  shows "grown t' \<and> (\<exists>es. st_entries t' = st_entries t @ es)"
proof (cases "st_by_id t target = None")
  case True
  then show ?thesis using assms by (auto simp: set_label_def)
next
  case False
  let ?e = "\<lparr>te_id = fresh_id t, te_parent = st_leaf t, te_kind = TK_Label,
             te_body = (case l of None \<Rightarrow> [] | Some l \<Rightarrow> l), te_from = Some target, te_label = l,
             te_seq = word_of_nat (length (st_entries t))\<rparr>"
  obtain u t1 where push: "push_admission ?e t = (u, t1)" by (meson surj_pair)
  have "target \<in> te_id ` set (st_entries t)"
    using False assms(2) by_id_None_iff [of t target] by (auto simp: grown_def)
  then have fits: "entry_fits (st_entries t) ?e"
    using assms(2) by (simp add: entry_fits_def fresh_id_def grown_def refers_back_def)
  have m: "labels_of (st_entries t @ [?e]) = apply_label target l (st_labels t)"
    using assms(2) by (simp add: labels_of_snoc grown_def)
  note g = grown_append_entry [OF assms(2) fits push m]
  have "t' = t1\<lparr>st_labels := apply_label target l (st_labels t), st_leaf := Some (te_id ?e)\<rparr>"
    using assms(1) False push g(1,4) by (auto simp: set_label_def Let_def)
  with g(2,3) show ?thesis by simp
qed

lemma branch_grown:
  "branch i t = (r, t') \<Longrightarrow> grown t \<Longrightarrow> grown t' \<and> st_entries t' = st_entries t"
  by (auto simp: branch_def grown_leaf split: if_splits)

lemma branch_with_summary_grown:
  assumes "branch_with_summary tg s t = (r, t')" and "grown t"
  shows "grown t' \<and> (\<exists>es. st_entries t' = st_entries t @ es)"
proof -
  obtain r1 t1 where mv: "(case tg of Some i \<Rightarrow> branch i t | None \<Rightarrow> (Inr (), t\<lparr>st_leaf := None\<rparr>)) = (r1, t1)"
    by (meson surj_pair)
  have t1: "grown t1" "st_entries t1 = st_entries t"
    using mv assms(2) branch_grown grown_no_leaf by (auto split: option.splits)
  have tg: "refers_back (st_entries t) tg" if "r1 = Inr u" for u
    using mv that assms(2)
    by (auto simp: refers_back_def branch_def grown_def by_id_None_iff split: option.splits if_splits)
  let ?e = "\<lparr>te_id = fresh_id t1, te_parent = st_leaf t1, te_kind = TK_BranchSummary, te_body = s,
             te_from = tg, te_label = None, te_seq = word_of_nat (length (st_entries t1))\<rparr>"
  obtain u t2 where push: "push_admission ?e t1 = (u, t2)" by (meson surj_pair)
  show ?thesis
  proof (cases "\<exists>e. r1 = Inl e \<or> s = []")
    case True
    then show ?thesis
      using assms(1) t1 unfolding branch_with_summary_def mv by (auto split: sum.splits)
  next
    case False
    then obtain v where v: "r1 = Inr v" "s \<noteq> []" by (cases r1) auto
    have fits: "entry_fits (st_entries t1) ?e"
      using t1 tg [OF v(1)] by (simp add: entry_fits_def fresh_id_def grown_def)
    have m: "labels_of (st_entries t1 @ [?e]) = st_labels t1"
      using t1(1) by (simp add: labels_of_snoc grown_def)
    note g = grown_append_entry [OF t1(1) fits push m]
    have "t' = t2\<lparr>st_labels := st_labels t1, st_leaf := Some (te_id ?e)\<rparr>"
      using assms(1) v push g(1,4) unfolding branch_with_summary_def mv by (auto simp: Let_def)
    with g(2,3) t1(2) show ?thesis by simp
  qed
qed

lemma tree_step_grown: "tree_step t t' \<Longrightarrow> grown t \<Longrightarrow> grown t' \<and> (\<exists>es. st_entries t' = st_entries t @ es)"
proof (induction rule: tree_step.induct)
  case (branch i t u t')
  then show ?case using branch_grown by fastforce
next
  case (reset t)
  then show ?case by (auto simp: reset_leaf_def grown_no_leaf)
qed (blast dest: tree_append_grown set_label_grown branch_with_summary_grown)+

lemma tree_reach_grown: "tree_reach t \<Longrightarrow> grown t"
  by (induction rule: rtranclp_induct) (auto simp: grown_new dest: tree_step_grown)

section \<open>Grown trees have short parent chains\<close>

lemma grown_parent:
  assumes "grown t" and "k < length (st_entries t)" and "te_parent (entry_at t k) = Some p"
  obtains j where "j < k" "st_by_id t p = Some j"
proof -
  have "refers_back (take k (st_entries t)) (Some p)"
    using assms by (auto simp: grown_def log_ok_def entry_fits_def)
  then obtain j where "j < k" "te_id (entry_at t j) = p"
    by (auto simp: refers_back_def set_conv_nth)
  moreover from this have "st_by_id t p = Some j"
    using assms(1,2) by (auto simp: grown_def wf_index_iff)
  ultimately show thesis using that by blast
qed

lemma grown_chain_ends:
  assumes "grown t"
  shows "k < length (st_entries t) \<Longrightarrow> k \<le> s \<Longrightarrow> chain_ends t s (te_parent (entry_at t k))"
proof (induction k arbitrary: s rule: less_induct)
  case (less k)
  show ?case
  proof (cases "te_parent (entry_at t k)")
    case (Some p)
    obtain j where j: "j < k" "st_by_id t p = Some j"
      using grown_parent [OF assms less.prems(1) Some] .
    then obtain s' where "s = Suc s'" "j \<le> s'" using less.prems(2) by (cases s) auto
    then show ?thesis using less.IH [of j s'] less.prems(1) j Some by simp
  qed simp
qed

lemma grown_validates: "grown t \<Longrightarrow> validate_acyclic t = Inr ()"
  using grown_chain_ends [of t] by (fastforce simp: validate_acyclic_def in_set_conv_nth)

lemma grown_acyclic: "grown t \<Longrightarrow> acyclic_tree t"
  by (rule validate_acyclic_depth) (rule grown_validates)

lemma grown_get_branch:
  assumes "grown t" and "st_by_id t i = Some k"
  shows "\<exists>w. get_branch t i = Inr w"
proof -
  have k: "k < length (st_entries t)" using assms by (auto simp: grown_def dest: wf_indexD(2))
  then have "chain_ends t (length (st_entries t)) (te_parent (entry_at t k))"
    using grown_chain_ends [OF assms(1)] by simp
  then obtain w where "walk_up t (length (st_entries t)) (te_parent (entry_at t k)) = Inr w"
    using walk_up_chain_ends by blast
  then show ?thesis by (simp add: get_branch_def assms(2))
qed

lemma grown_branch:
  assumes "grown t" and "e \<in> set (st_entries t)"
  shows "\<exists>w. get_branch t (te_id e) = Inr w \<and> w \<noteq> [] \<and> last w = e \<and> parent_path w \<and> te_parent (hd w) = None"
proof -
  have wf: "wf_index t" using assms(1) by (simp add: grown_def)
  from assms(2) obtain k where k: "k < length (st_entries t)" "e = entry_at t k" by (auto simp: in_set_conv_nth)
  then have ix: "st_by_id t (te_id e) = Some k" using wf_indexD(1) [OF wf] by simp
  then obtain w where w: "get_branch t (te_id e) = Inr w" using grown_get_branch [OF assms(1)] by blast
  from w ix k obtain u where u: "walk_up t (length (st_entries t)) (te_parent e) = Inr u" "w = rev (e # u)"
    by (auto simp: get_branch_def split: sum.splits)
  have last: "last w = e" and inlog: "set w \<subseteq> set (st_entries t)"
    using u assms(2) walk_up_entries [OF wf u(1)] by auto
  note path = get_branch_path [OF wf w]
  have "hd w \<in> set (st_entries t)" using path inlog by (auto dest: hd_in_set)
  then obtain j where j: "j < length (st_entries t)" "hd w = entry_at t j" by (auto simp: in_set_conv_nth)
  have "te_parent (hd w) = None"
  proof (rule ccontr)
    assume "te_parent (hd w) \<noteq> None"
    then obtain p where p: "te_parent (entry_at t j) = Some p" using j by auto
    from grown_parent [OF assms(1) j(1) p] obtain i where "st_by_id t p = Some i" by blast
    with path p j show False by (simp add: starts_branch_def)
  qed
  with w last path show ?thesis by blast
qed

lemma grown_context:
  assumes "grown t"
  shows "\<exists>ms. context_messages t = Inr ms"
proof (cases "st_leaf t")
  case (Some l)
  then obtain e where "e \<in> set (st_entries t)" "l = te_id e"
    using assms by (auto simp: grown_def refers_back_def)
  then obtain w where "get_branch t l = Inr w" using grown_branch [OF assms] by blast
  with Some show ?thesis by (simp add: context_messages_def)
qed (simp add: context_messages_def)

section \<open>Replay\<close>

definition entry_ok :: "tree_entry \<Rightarrow> bool" where
  "entry_ok e \<longleftrightarrow> te_id e \<noteq> [] \<and> te_parent e \<noteq> Some [] \<and> te_from e \<noteq> Some [] \<and> te_from e \<noteq> Some ROOT_TARGET"

lemma tk_parse_as_str [simp]: "tk_parse (tk_as_str k) = Inr k"
  by (cases k) (simp_all add: tk_parse_def)

lemma parse_opt [simp]:
  "r \<noteq> Some [] \<Longrightarrow> parse_parent (Some (j_opt r)) = Inr r" "parse_label (Some (j_opt r)) = Inr r"
  by (cases r; simp add: parse_parent_def parse_label_def)+

lemma from_json_to_json: "entry_ok e \<Longrightarrow> from_json (to_json e) = Inr (e\<lparr>te_seq := 0\<rparr>)"
  by (cases "te_from e")
    (simp_all add: entry_ok_def to_json_def from_json_def str_key_def Let_def parse_from_def ROOT_TARGET_def)

lemma admit_log:
  "wf_index t \<Longrightarrow> \<forall>e \<in> set es. entry_ok e \<Longrightarrow> \<forall>i < length es. te_seq (es ! i) = word_of_nat (length (st_entries t) + i) \<Longrightarrow>
   distinct (map te_id (st_entries t @ es)) \<Longrightarrow>
   \<exists>t'. admit_all (map to_json es) t = Inr t' \<and> wf_index t' \<and> st_entries t' = st_entries t @ es \<and>
        st_leaf t' = st_leaf t \<and> st_labels t' = st_labels t"
proof (induction es arbitrary: t)
  case (Cons e es)
  have ok: "from_json (to_json e) = Inr (e\<lparr>te_seq := 0\<rparr>)" using Cons.prems(2) by (simp add: from_json_to_json)
  have "te_id e \<notin> te_id ` set (st_entries t)" using Cons.prems(4) by auto
  then have "st_by_id t (te_id (e\<lparr>te_seq := 0\<rparr>)) = None" using by_id_None_iff [OF Cons.prems(1)] by simp
  then obtain t1 where push: "push_admission (e\<lparr>te_seq := 0\<rparr>) t = (Inr (), t1)"
    by (simp add: push_admission_def Let_def)
  have "te_seq e = word_of_nat (length (st_entries t))" using Cons.prems(3) by force
  then have t1: "wf_index t1" "st_entries t1 = st_entries t @ [e]" "st_leaf t1 = st_leaf t" "st_labels t1 = st_labels t"
    using push_admission_Inr [OF push Cons.prems(1)] by simp_all
  have "te_seq (es ! i) = word_of_nat (length (st_entries t1) + i)" if "i < length es" for i
    using Cons.prems(3) [rule_format, of "Suc i"] that t1(2) by simp
  with Cons.IH [OF t1(1)] Cons.prems(2,4) t1 ok push show ?case by auto
qed simp

lemma log_entry_ok:
  assumes "log_ok es" and "e \<in> set es"
  shows "entry_ok e"
proof -
  from assms(2) obtain k where k: "k < length es" "e = es ! k" by (auto simp: in_set_conv_nth)
  have fits: "entry_fits (take k es) e" using assms(1) k by (simp add: log_ok_def)
  have ids: "p \<noteq> [] \<and> p \<noteq> ROOT_TARGET" if "p \<in> te_id ` set es" for p
  proof -
    from that obtain x where "x \<in> set es" "p = te_id x" by blast
    with log_ids [OF assms(1), of x] show ?thesis by (auto simp: ROOT_TARGET_def)
  qed
  have refs: "r \<noteq> Some [] \<and> r \<noteq> Some ROOT_TARGET" if "refers_back (take k es) r" for r
    using that ids set_take_subset [of k es] by (cases r) (auto simp: refers_back_def)
  show ?thesis
    using fits refs [of "te_parent e"] refs [of "te_from e"] by (auto simp: entry_ok_def entry_fits_def)
qed

lemma wf_index_distinct: "wf_index t \<Longrightarrow> distinct (map te_id (st_entries t))"
  by (auto simp: distinct_conv_nth dest: wf_indexD(1)) (metis option.inject wf_indexD(1))

lemma chain_ends_cong:
  "st_entries t = st_entries t' \<Longrightarrow> st_by_id t = st_by_id t' \<Longrightarrow> chain_ends t k c = chain_ends t' k c"
  by (induction t k c rule: chain_ends.induct) (auto split: option.splits)

lemma grown_replay:
  assumes "grown t"
  shows "replay (map to_json (st_entries t)) = Inr (t\<lparr>st_leaf := last_id (st_entries t)\<rparr>)"
proof -
  let ?es = "st_entries t"
  have wf: "wf_index t" and log: "log_ok ?es" and lab: "st_labels t = labels_of ?es"
    using assms by (simp_all add: grown_def)
  have "\<forall>i < length ?es. te_seq (?es ! i) = word_of_nat (length (st_entries tree_new) + i)"
    using log by (simp add: log_ok_def entry_fits_def tree_new_def)
  moreover have "distinct (map te_id (st_entries tree_new @ ?es))"
    using wf_index_distinct [OF wf] by (simp add: tree_new_def)
  ultimately obtain t' where t': "admit_all (map to_json ?es) tree_new = Inr t'" "wf_index t'"
    "st_entries t' = st_entries tree_new @ ?es"
    using admit_log [OF wf_index_new, of ?es] log_entry_ok [OF log] by blast
  then have es: "st_entries t' = ?es" by (simp add: tree_new_def)
  have ix: "st_by_id t' = st_by_id t" using wf_index_unique [OF t'(2) wf es] .
  have "validate_acyclic t' = Inr ()"
    using grown_validates [OF assms] chain_ends_cong [OF es ix] es by (simp add: validate_acyclic_def split: if_splits)
  moreover have "reindex_labels (t'\<lparr>st_leaf := last_id ?es\<rparr>) = t\<lparr>st_leaf := last_id ?es\<rparr>"
    using es ix lab by (simp add: reindex_labels_def)
  ultimately show ?thesis using t'(1) es by (simp add: replay_def)
qed

lemma admit_all_wf: "admit_all vs t = Inr t' \<Longrightarrow> wf_index t \<Longrightarrow> wf_index t'"
proof (induction vs arbitrary: t)
  case (Cons v vs)
  from Cons.prems(1) obtain e u t1 where "push_admission e t = (Inr u, t1)" "admit_all vs t1 = Inr t'"
    by (auto split: sum.splits prod.splits)
  with Cons show ?case by (blast dest: push_admission_Inr(1))
qed simp

lemma replay_wf_acyclic:
  assumes "replay vs = Inr t"
  shows "wf_index t" "acyclic_tree t"
proof -
  from assms obtain t0 where adm: "admit_all vs tree_new = Inr t0" and val: "validate_acyclic t0 = Inr ()"
    and t: "t = reindex_labels (t0\<lparr>st_leaf := last_id (st_entries t0)\<rparr>)"
    by (auto simp: replay_def split: sum.splits)
  have wf: "wf_index t0" using admit_all_wf [OF adm] by simp
  then show "wf_index t" by (simp add: t reindex_labels_def)
  have "validate_acyclic t = Inr ()"
    using val chain_ends_cong [of t t0] by (simp add: t reindex_labels_def validate_acyclic_def split: if_splits)
  then show "acyclic_tree t" by (rule validate_acyclic_depth)
qed

section \<open>Properties\<close>

definition demo_tree :: session_tree where
  "demo_tree = snd (tree_append TK_Message ''hello'' tree_new)"

lemma demo_tree_reach: "tree_reach demo_tree"
  unfolding demo_tree_def
  by (rule r_into_rtranclp) (rule tree_step.append [OF surjective_pairing])

text \<open>
  C24. A tree grown by the operations is sound.  From the empty tree, by any sequence of
  appends, labels, navigations and summaries, refused ones included: the index is exactly
  the position of each id, the labels are those the label entries of the log set, a next
  operation only extends the log, and from every entry the walk to the root succeeds and is
  the path of parent links that ends at that entry, so the context of the leaf can always be
  built.
\<close>

theorem grown_tree_sound:
  assumes "tree_reach t"
  shows "(\<forall>p i. st_by_id t p = Some i \<longleftrightarrow> i < length (st_entries t) \<and> te_id (entry_at t i) = p) \<and>
         st_labels t = labels_of (st_entries t) \<and>
         (\<forall>t'. tree_step t t' \<longrightarrow> (\<exists>es. st_entries t' = st_entries t @ es)) \<and>
         (\<forall>e \<in> set (st_entries t). \<exists>w. get_branch t (te_id e) = Inr w \<and> w \<noteq> [] \<and> last w = e \<and>
            parent_path w \<and> te_parent (hd w) = None) \<and>
         (\<exists>ms. context_messages t = Inr ms)"
proof -
  have g: "grown t" using assms by (rule tree_reach_grown)
  then have wf: "wf_index t" by (simp add: grown_def)
  have "\<exists>w. get_branch t (te_id e) = Inr w \<and> w \<noteq> [] \<and> last w = e \<and> parent_path w \<and> te_parent (hd w) = None"
    if "e \<in> set (st_entries t)" for e
    using grown_branch [OF g that] .
  moreover have "\<exists>ms. context_messages t = Inr ms"
    using grown_context [OF g] .
  ultimately show ?thesis
    using g tree_step_grown wf_index_iff [OF wf] by (auto simp: grown_def)
qed

theorem grown_tree_sound_witness:
  "st_labels demo_tree = labels_of (st_entries demo_tree) \<and> (\<exists>ms. context_messages demo_tree = Inr ms)"
  using grown_tree_sound [OF demo_tree_reach] by blast

text \<open>
  C25. The log is the tree.  Replaying the JSON forms of the entries of a grown tree gives
  the tree back, its index, its labels and its sequence numbers included, with the leaf on
  the newest entry.
\<close>

theorem replay_roundtrip:
  assumes "tree_reach t"
  shows "replay (map to_json (st_entries t)) = Inr (t\<lparr>st_leaf := last_id (st_entries t)\<rparr>)"
  using assms by (intro grown_replay tree_reach_grown)

theorem replay_roundtrip_witness:
  "replay (map to_json (st_entries demo_tree)) = Inr (demo_tree\<lparr>st_leaf := last_id (st_entries demo_tree)\<rparr>)"
  by (rule replay_roundtrip [OF demo_tree_reach])

text \<open>
  C26. The tree view shows every entry once and ends.  For a grown tree and for every tree
  replay accepts, orphans included, the nodes of \<^verbatim>\<open>get_tree\<close> are exactly the entries of the log,
  each once, and a recursion deeper than the number of entries never happens: more fuel gives
  the same view.
\<close>

theorem get_tree_complete:
  assumes "tree_reach t \<or> replay vs = Inr t"
  shows "mset (node_entries (get_tree t)) = mset (st_entries t) \<and>
         (\<forall>fuel > length (st_entries t). build_nodes t fuel (children_of t None) = get_tree t)"
proof -
  have "wf_index t" "acyclic_tree t"
    using assms replay_wf_acyclic tree_reach_grown grown_acyclic by (auto simp: grown_def)
  then show ?thesis using get_tree_entries build_fuel by blast
qed

theorem get_tree_complete_witness:
  "mset (node_entries (get_tree demo_tree)) = mset (st_entries demo_tree)"
  using get_tree_complete [of demo_tree "[]"] demo_tree_reach by blast



end
