(* ===== verification/Evidence_Core.thy ===== *)
theory Evidence_Core
  imports Audit_Link "HOL-Library.Multiset"
begin

text \<open>
  The evidence resolver (\<^verbatim>\<open>crates/brain-evidence-core\<close>): content identifiers
  (\<^verbatim>\<open>src/cid.rs\<close>) and the verdict on citations of byte ranges (\<^verbatim>\<open>src/lib.rs\<close>).  The base32
  encoder keeps its accumulator in a 32-bit word whose high bits are never cleared; SHA-256 is
  a parameter.
\<close>

unbundle bit_operations_syntax

section \<open>Content identifiers\<close>

definition CID_ALGORITHM_PREFIX :: str where
  "CID_ALGORITHM_PREFIX = ''sha256:''"

definition CID_ALPHABET :: str where
  "CID_ALPHABET = ''abcdefghijklmnopqrstuvwxyz234567''"

definition CID_MULTIHASH_PREFIX :: str where
  "CID_MULTIHASH_PREFIX = [CHR 0x12, CHR 0x20]"

definition CID_DIGEST_LEN :: nat where
  "CID_DIGEST_LEN = 32"

definition CID_MULTIHASH_LEN :: nat where
  "CID_MULTIHASH_LEN = 2 + CID_DIGEST_LEN"

definition CID_ENCODED_LEN :: nat where
  "CID_ENCODED_LEN = (CID_MULTIHASH_LEN * 8 + 4) div 5"

definition b32_char :: "u32 \<Rightarrow> char" where
  "b32_char w = CID_ALPHABET ! unat (w AND 0x1f)"

fun b32_emit :: "u32 \<Rightarrow> nat \<Rightarrow> str \<Rightarrow> nat \<times> str" where
  "b32_emit acc bits out =
     (if 5 \<le> bits then b32_emit acc (bits - 5) (out @ [b32_char (drop_bit (bits - 5) acc)])
      else (bits, out))"

declare b32_emit.simps [simp del]

fun b32_loop :: "str \<Rightarrow> u32 \<Rightarrow> nat \<Rightarrow> str \<Rightarrow> u32 \<times> nat \<times> str" where
  "b32_loop [] acc bits out = (acc, bits, out)"
| "b32_loop (b # bs) acc bits out =
     (let acc' = push_bit 8 acc OR word_of_nat (of_char b);
          (bits', out') = b32_emit acc' (bits + 8) out
      in b32_loop bs acc' bits' out')"

definition base32_encode :: "str \<Rightarrow> str" where
  "base32_encode bytes =
     (case b32_loop bytes 0 0 [] of
        (acc, bits, out) \<Rightarrow> if 0 < bits then out @ [b32_char (push_bit (5 - bits) acc)] else out)"

definition cid_v1 :: "crypto \<Rightarrow> str \<Rightarrow> str" where
  "cid_v1 cr bytes = CID_ALGORITHM_PREFIX @ base32_encode (CID_MULTIHASH_PREFIX @ sha256 cr bytes)"

definition is_well_formed_cid :: "str \<Rightarrow> bool" where
  "is_well_formed_cid cid =
     (let n = length CID_ALGORITHM_PREFIX in
      take n cid = CID_ALGORITHM_PREFIX \<and>
      length (drop n cid) = CID_ENCODED_LEN \<and> list_all (\<lambda>c. c \<in> set CID_ALPHABET) (drop n cid))"

section \<open>The resolver\<close>

record evidence_ref =
  er_cid :: str
  er_quote :: str
  er_start :: nat
  er_end :: nat

datatype evidence_verdict =
    EV_Resolved | EV_UnresolvedSource | EV_CidMismatch | EV_QuoteMismatch | EV_RangeOutOfBounds | EV_EmptyEvidence

fun failure_cause :: "evidence_verdict \<Rightarrow> str option" where
  "failure_cause EV_Resolved = None"
| "failure_cause EV_UnresolvedSource = Some ''unresolved_source''"
| "failure_cause EV_CidMismatch = Some ''cid_mismatch''"
| "failure_cause EV_QuoteMismatch = Some ''quote_mismatch''"
| "failure_cause EV_RangeOutOfBounds = Some ''out_of_range''"
| "failure_cause EV_EmptyEvidence = Some ''empty_evidence''"

fun describe :: "evidence_verdict \<Rightarrow> str" where
  "describe EV_Resolved = ''resolved''"
| "describe EV_UnresolvedSource = ''unresolved_source''"
| "describe EV_CidMismatch = ''cid_mismatch''"
| "describe EV_QuoteMismatch = ''quote_mismatch''"
| "describe EV_RangeOutOfBounds = ''out_of_range''"
| "describe EV_EmptyEvidence = ''empty_evidence''"

definition slice_get :: "str \<Rightarrow> nat \<Rightarrow> nat \<Rightarrow> str option" where
  "slice_get source i j = (if i \<le> j \<and> j \<le> length source then Some (take (j - i) (drop i source)) else None)"

fun collect_opt :: "'a option list \<Rightarrow> 'a list option" where
  "collect_opt [] = Some []"
| "collect_opt (None # xs) = None"
| "collect_opt (Some x # xs) = map_option (\<lambda>ys. x # ys) (collect_opt xs)"

definition resolve :: "crypto \<Rightarrow> str \<Rightarrow> evidence_ref list \<Rightarrow> evidence_verdict" where
  "resolve cr source refs =
     (if refs = [] \<or> list_ex (\<lambda>r. er_quote r = []) refs then EV_EmptyEvidence
      else if source = [] \<or> list_ex (\<lambda>r. \<not> is_well_formed_cid (er_cid r)) refs then EV_UnresolvedSource
      else case collect_opt (map (\<lambda>r. slice_get source (er_start r) (er_end r)) refs) of
        None \<Rightarrow> EV_RangeOutOfBounds
      | Some declared \<Rightarrow>
          let admitted_cid = cid_v1 cr source in
          if list_ex (\<lambda>r. er_cid r \<noteq> admitted_cid) refs then EV_CidMismatch
          else if list_ex (\<lambda>(d, r). sha256 cr d \<noteq> sha256 cr (er_quote r)) (zip declared refs) then EV_QuoteMismatch
          else EV_Resolved)"

section \<open>Base32 is positional notation\<close>

definition bytes_nat :: "str \<Rightarrow> nat" where
  "bytes_nat bs = foldl (\<lambda>n b. n * 256 + of_char b) 0 bs"

fun digits32 :: "nat \<Rightarrow> nat \<Rightarrow> str" where
  "digits32 0 x = []"
| "digits32 (Suc m) x = digits32 m (x div 32) @ [CID_ALPHABET ! (x mod 32)]"

lemma length_digits32 [simp]: "length (digits32 m x) = m"
  by (induction m arbitrary: x) simp_all

lemma alphabet_inj: "CID_ALPHABET ! i = CID_ALPHABET ! j \<Longrightarrow> i < 32 \<Longrightarrow> j < 32 \<Longrightarrow> i = j"
proof -
  have "distinct CID_ALPHABET" "length CID_ALPHABET = 32" by (simp_all add: CID_ALPHABET_def)
  then show "CID_ALPHABET ! i = CID_ALPHABET ! j \<Longrightarrow> i < 32 \<Longrightarrow> j < 32 \<Longrightarrow> i = j"
    by (simp add: nth_eq_iff_index_eq)
qed

lemma digits32_inj: "digits32 m x = digits32 m y \<Longrightarrow> x < 32 ^ m \<Longrightarrow> y < 32 ^ m \<Longrightarrow> x = y"
proof (induction m arbitrary: x y)
  case (Suc m)
  have "x div 32 = y div 32"
    using Suc.prems by (intro Suc.IH) (simp_all add: less_mult_imp_div_less mult.commute)
  moreover have "x mod 32 = y mod 32" using Suc.prems(1) by (intro alphabet_inj) simp_all
  ultimately show ?case by (metis div_mult_mod_eq)
qed simp

lemma b32_char_mod: "b32_char w = CID_ALPHABET ! (unat w mod 32)"
proof -
  have "w AND 0x1f = take_bit 5 w" by (simp add: take_bit_eq_mask mask_eq_exp_minus_1)
  also have "\<dots> = w mod 32" by (simp add: take_bit_eq_mod)
  finally show ?thesis by (simp add: b32_char_def unat_mod)
qed

text \<open>The emit loop, over any number that agrees with the accumulator on the pending bits.\<close>

lemma b32_emit_digits:
  "unat acc mod 2 ^ k = x mod 2 ^ k \<Longrightarrow>
   b32_emit acc k (digits32 m (x div 2 ^ k)) = (k mod 5, digits32 (m + k div 5) (x div 2 ^ (k mod 5)))"
proof (induction k arbitrary: m rule: less_induct)
  case (less k)
  show ?case
  proof (cases "5 \<le> k")
    case True
    define j where "j = k - 5"
    with True have k: "k = j + 5" by simp
    have pow: "(2::nat) ^ k = 32 * 2 ^ j" by (simp add: k power_add)
    have "unat acc div 2 ^ j mod 32 = unat acc mod 2 ^ k div 2 ^ j"
      by (simp add: pow mod_mult2_eq mult.commute)
    also have "\<dots> = x mod 2 ^ k div 2 ^ j" by (simp add: less.prems)
    also have "\<dots> = x div 2 ^ j mod 32" by (simp add: pow mod_mult2_eq mult.commute)
    finally have low: "unat acc div 2 ^ j mod 32 = x div 2 ^ j mod 32" .
    have "unat (drop_bit j acc) = unat acc div 2 ^ j"
      by (subst unat_drop_bit_eq) (simp only: drop_bit_eq_div)
    with low have "b32_char (drop_bit j acc) = CID_ALPHABET ! (x div 2 ^ j mod 32)"
      by (simp only: b32_char_mod)
    moreover have "x div 2 ^ k = x div 2 ^ j div 32" by (simp add: pow div_mult2_eq mult.commute)
    ultimately have step: "digits32 m (x div 2 ^ k) @ [b32_char (drop_bit j acc)] = digits32 (Suc m) (x div 2 ^ j)"
      by simp
    have "unat acc mod 2 ^ j = x mod 2 ^ j"
      using arg_cong [OF less.prems, of "\<lambda>n. n mod 2 ^ j"] by (simp add: k mod_mod_cancel le_imp_power_dvd)
    then have "b32_emit acc j (digits32 (Suc m) (x div 2 ^ j)) =
        (j mod 5, digits32 (Suc m + j div 5) (x div 2 ^ (j mod 5)))"
      by (intro less.IH) (simp_all add: k)
    moreover have "k div 5 = Suc (j div 5)" "k mod 5 = j mod 5" "k - 5 = j" by (simp_all add: k)
    ultimately show ?thesis using True step by (subst b32_emit.simps) (simp del: digits32.simps)
  qed (simp add: b32_emit.simps)
qed

lemma b32_accumulate:
  assumes "k \<le> 32"
  shows "unat (push_bit 8 (acc :: u32) OR word_of_nat (of_char b)) mod 2 ^ k = (unat acc * 256 + of_char b) mod 2 ^ k"
proof -
  let ?w = "word_of_nat (of_char b) :: u32"
  have b: "(of_char b :: nat) < 2 ^ 8" by simp
  have "take_bit 8 ?w = ?w"
    using b by (simp only: take_bit_of_nat take_bit_nat_eq_self)
  then have "\<not> bit ?w n" if "8 \<le> n" for n
    using that by (metis bit_take_bit_iff not_less)
  then have "push_bit 8 acc OR ?w = push_bit 8 acc + ?w"
    by (intro disjunctive_add [symmetric]) (auto simp: bit_push_bit_iff)
  also have "\<dots> = acc * 256 + ?w" by (simp add: push_bit_eq_mult)
  also have "unat \<dots> = (unat acc * 256 + of_char b) mod 2 ^ 32"
    using b by (simp add: unat_word_ariths unat_of_nat mod_simps)
  finally have "unat (push_bit 8 acc OR ?w) = (unat acc * 256 + of_char b) mod 2 ^ 32" .
  moreover have "(2::nat) ^ k dvd 2 ^ 32" using assms by (rule le_imp_power_dvd)
  ultimately show ?thesis by (simp add: mod_mod_cancel)
qed

lemma b32_loop_digits:
  fixes acc :: u32 and bits x m :: nat and bs :: str
  assumes "unat acc mod 2 ^ bits = x mod 2 ^ bits" and "bits < 5"
  defines "k \<equiv> bits + 8 * length bs" and "y \<equiv> foldl (\<lambda>n b. n * 256 + of_char b) x bs"
  shows "\<exists>acc'. b32_loop bs acc bits (digits32 m (x div 2 ^ bits)) =
           (acc', k mod 5, digits32 (m + k div 5) (y div 2 ^ (k mod 5))) \<and>
           unat acc' mod 2 ^ (k mod 5) = y mod 2 ^ (k mod 5)"
  using assms(1,2) unfolding k_def y_def
proof (induction bs arbitrary: acc bits x m)
  case Nil
  then show ?case by simp
next
  case (Cons b bs)
  let ?acc = "push_bit 8 acc OR word_of_nat (of_char b)"
  let ?x = "x * 256 + of_char b"
  have b: "(of_char b :: nat) < 256" by simp
  have shift: "(n * 256 + of_char b) mod 2 ^ (bits + 8) = (n mod 2 ^ bits) * 256 + of_char b" for n :: nat
    using b mod_mult2_eq [of "n * 256 + of_char b" 256 "2 ^ bits"]
    by (simp add: power_add mult.commute)
  have low: "unat ?acc mod 2 ^ (bits + 8) = ?x mod 2 ^ (bits + 8)"
    using Cons.prems b32_accumulate [of "bits + 8" acc b] by (simp only: shift)
  have "?x div 2 ^ (bits + 8) = x div 2 ^ bits"
    using b div_mult2_eq [of ?x 256 "2 ^ bits"] by (simp add: power_add mult.commute)
  with b32_emit_digits [OF low, of m]
  have emit: "b32_emit ?acc (bits + 8) (digits32 m (x div 2 ^ bits)) =
      ((bits + 8) mod 5, digits32 (m + (bits + 8) div 5) (?x div 2 ^ ((bits + 8) mod 5)))" by simp
  have "unat ?acc mod 2 ^ ((bits + 8) mod 5) = ?x mod 2 ^ ((bits + 8) mod 5)"
    using arg_cong [OF low, of "\<lambda>n. n mod 2 ^ ((bits + 8) mod 5)"]
    by (simp add: mod_mod_cancel le_imp_power_dvd)
  from Cons.IH [OF this, of "m + (bits + 8) div 5"]
  obtain acc' where IH: "b32_loop bs ?acc ((bits + 8) mod 5)
       (digits32 (m + (bits + 8) div 5) (?x div 2 ^ ((bits + 8) mod 5))) =
       (acc', ((bits + 8) mod 5 + 8 * length bs) mod 5,
        digits32 (m + (bits + 8) div 5 + ((bits + 8) mod 5 + 8 * length bs) div 5)
          (foldl (\<lambda>n b. n * 256 + of_char b) ?x bs div 2 ^ (((bits + 8) mod 5 + 8 * length bs) mod 5)))"
      "unat acc' mod 2 ^ (((bits + 8) mod 5 + 8 * length bs) mod 5) =
       foldl (\<lambda>n b. n * 256 + of_char b) ?x bs mod 2 ^ (((bits + 8) mod 5 + 8 * length bs) mod 5)"
    by auto
  have "bits + 8 * length (b # bs) = 5 * ((bits + 8) div 5) + ((bits + 8) mod 5 + 8 * length bs)"
    by (simp add: algebra_simps)
  then have "((bits + 8) mod 5 + 8 * length bs) mod 5 = (bits + 8 * length (b # bs)) mod 5"
    "(bits + 8) div 5 + ((bits + 8) mod 5 + 8 * length bs) div 5 = (bits + 8 * length (b # bs)) div 5"
    by (simp_all only: mod_mult_self4 div_mult_self4 zero_neq_numeral not_False_eq_True)
  with IH emit show ?case by (simp add: Let_def add.assoc)
qed

definition b32_len :: "nat \<Rightarrow> nat" where
  "b32_len n = (8 * n + 4) div 5"

lemma b32_len_split:
  "8 * n mod 5 = 0 \<Longrightarrow> b32_len n = 8 * n div 5 \<and> 5 * b32_len n - 8 * n = 0"
  "8 * n mod 5 \<noteq> 0 \<Longrightarrow> b32_len n = Suc (8 * n div 5) \<and> 5 * b32_len n - 8 * n = 5 - 8 * n mod 5"
proof -
  define q r where "q = 8 * n div 5" and "r = 8 * n mod 5"
  have n: "8 * n = 5 * q + r" and r: "r < 5" by (simp_all add: q_def r_def)
  have "b32_len n = q + (r + 4) div 5" unfolding b32_len_def n by simp
  moreover have "(r + 4) div 5 = (if r = 0 then 0 else 1)" using r by auto
  ultimately show "8 * n mod 5 = 0 \<Longrightarrow> b32_len n = 8 * n div 5 \<and> 5 * b32_len n - 8 * n = 0"
    "8 * n mod 5 \<noteq> 0 \<Longrightarrow> b32_len n = Suc (8 * n div 5) \<and> 5 * b32_len n - 8 * n = 5 - 8 * n mod 5"
    using n r by (simp_all add: q_def [symmetric] r_def [symmetric])
qed

lemma base32_encode_digits:
  "base32_encode bs =
     digits32 (b32_len (length bs)) (bytes_nat bs * 2 ^ (5 * b32_len (length bs) - 8 * length bs))"
proof -
  let ?n = "length bs"
  let ?r = "8 * ?n mod 5"
  obtain acc where loop: "b32_loop bs 0 0 [] = (acc, ?r, digits32 (8 * ?n div 5) (bytes_nat bs div 2 ^ ?r))"
    and low: "unat acc mod 2 ^ ?r = bytes_nat bs mod 2 ^ ?r"
    using b32_loop_digits [of 0 0 0 bs 0] by (auto simp: bytes_nat_def)
  show ?thesis
  proof (cases "?r = 0")
    case True
    then have "b32_len ?n = 8 * ?n div 5" "5 * b32_len ?n - 8 * ?n = 0" using b32_len_split(1) [of ?n] by simp_all
    with True loop show ?thesis by (simp add: base32_encode_def)
  next
    case False
    have r: "?r < 5" by simp
    have len: "b32_len ?n = Suc (8 * ?n div 5)" "5 * b32_len ?n - 8 * ?n = 5 - ?r"
      using b32_len_split(2) [OF False] by auto
    have pow: "32 = (2::nat) ^ ?r * 2 ^ (5 - ?r)" using r by (simp only: power_add [symmetric]) simp
    have scale: "n * 2 ^ (5 - ?r) mod 32 = n mod 2 ^ ?r * 2 ^ (5 - ?r)" for n :: nat
      unfolding pow by (rule mult_mod_left [symmetric])
    have "unat (push_bit (5 - ?r) acc) mod 32 = unat acc * 2 ^ (5 - ?r) mod 2 ^ 32 mod 32"
      by (subst unsigned_push_bit_eq) (simp add: take_bit_eq_mod push_bit_eq_mult)
    also have "\<dots> = unat acc * 2 ^ (5 - ?r) mod 32" by (rule mod_mod_cancel) simp
    also have "\<dots> = bytes_nat bs * 2 ^ (5 - ?r) mod 32"
      by (simp only: scale low)
    finally have "b32_char (push_bit (5 - ?r) acc) = CID_ALPHABET ! (bytes_nat bs * 2 ^ (5 - ?r) mod 32)"
      by (simp add: b32_char_mod)
    moreover have "bytes_nat bs * 2 ^ (5 - ?r) div 32 = bytes_nat bs div 2 ^ ?r"
      unfolding pow by (rule div_mult_mult2) simp
    ultimately have "base32_encode bs = digits32 (Suc (8 * ?n div 5)) (bytes_nat bs * 2 ^ (5 - ?r))"
      using False loop by (simp add: base32_encode_def)
    then show ?thesis by (simp only: len(2)) (simp only: len(1))
  qed
qed

lemma bytes_nat_snoc [simp]: "bytes_nat (bs @ [b]) = bytes_nat bs * 256 + of_char b"
  by (simp add: bytes_nat_def)

lemma bytes_nat_less: "bytes_nat bs < 256 ^ length bs"
proof (induction bs rule: rev_induct)
  case (snoc b bs)
  have "(of_char b :: nat) < 256" by simp
  then have "bytes_nat bs * 256 + of_char b < Suc (bytes_nat bs) * 256" by simp
  also have "\<dots> \<le> 256 ^ length bs * 256" using snoc by (intro mult_right_mono) simp_all
  finally show ?case by (simp add: mult.commute)
qed (simp add: bytes_nat_def)

lemma bytes_nat_inj: "length as = length bs \<Longrightarrow> bytes_nat as = bytes_nat bs \<Longrightarrow> as = bs"
proof (induction as arbitrary: bs rule: rev_induct)
  case (snoc a as)
  obtain b bs' where bs: "bs = bs' @ [b]" using snoc.prems(1) by (cases bs rule: rev_cases) auto
  have ab: "(of_char a :: nat) < 256" "(of_char b :: nat) < 256" by simp_all
  have eq: "bytes_nat as * 256 + of_char a = bytes_nat bs' * 256 + of_char b" using snoc.prems(2) bs by simp
  have "bytes_nat as = bytes_nat bs'" "(of_char a :: nat) = of_char b"
    using arg_cong [OF eq, of "\<lambda>n. n div 256"] arg_cong [OF eq, of "\<lambda>n. n mod 256"] ab by simp_all
  then show ?case using snoc.IH [of bs'] snoc.prems(1) bs by (simp add: of_char_eq_iff)
qed simp

lemma b32_value_less: "bytes_nat bs * 2 ^ (5 * b32_len (length bs) - 8 * length bs) < 32 ^ b32_len (length bs)"
proof -
  let ?n = "length bs"
  have "8 * ?n \<le> 5 * b32_len ?n" by (simp add: b32_len_def)
  then have "(2::nat) ^ (5 * b32_len ?n) = 2 ^ (8 * ?n) * 2 ^ (5 * b32_len ?n - 8 * ?n)"
    by (simp only: power_add [symmetric] le_add_diff_inverse)
  then have "(32::nat) ^ b32_len ?n = 256 ^ ?n * 2 ^ (5 * b32_len ?n - 8 * ?n)"
    by (simp add: power_mult)
  then show ?thesis using bytes_nat_less [of bs] by simp
qed

lemma base32_encode_inj:
  assumes "base32_encode as = base32_encode bs" and "length as = length bs"
  shows "as = bs"
proof -
  have "bytes_nat as * 2 ^ (5 * b32_len (length bs) - 8 * length bs) =
      bytes_nat bs * 2 ^ (5 * b32_len (length bs) - 8 * length bs)"
    using assms b32_value_less [of as] b32_value_less [of bs]
    by (intro digits32_inj) (simp_all add: base32_encode_digits)
  then show ?thesis using assms(2) by (intro bytes_nat_inj) simp_all
qed

lemma length_base32_encode: "length (base32_encode bs) = b32_len (length bs)"
  by (simp add: base32_encode_digits)

lemma set_digits32: "set (digits32 m x) \<subseteq> set CID_ALPHABET"
proof (induction m arbitrary: x)
  case (Suc m)
  have "x mod 32 < length CID_ALPHABET" by (simp add: CID_ALPHABET_def)
  then have "CID_ALPHABET ! (x mod 32) \<in> set CID_ALPHABET" by (rule nth_mem)
  with Suc [of "x div 32"] show ?case by simp
qed simp

lemma cid_v1_inj:
  assumes "\<And>x. length (sha256 cr x) = CID_DIGEST_LEN" and "cid_v1 cr s = cid_v1 cr t"
  shows "sha256 cr s = sha256 cr t"
proof -
  have "base32_encode (CID_MULTIHASH_PREFIX @ sha256 cr s) = base32_encode (CID_MULTIHASH_PREFIX @ sha256 cr t)"
    using assms(2) by (simp add: cid_v1_def)
  then show ?thesis using base32_encode_inj assms(1) by fastforce
qed

lemma cid_v1_well_formed:
  assumes "length (sha256 cr s) = CID_DIGEST_LEN"
  shows "is_well_formed_cid (cid_v1 cr s)"
proof -
  let ?m = "CID_MULTIHASH_PREFIX @ sha256 cr s"
  have "length (base32_encode ?m) = CID_ENCODED_LEN"
    using assms
    by (simp add: length_base32_encode CID_MULTIHASH_PREFIX_def b32_len_def CID_ENCODED_LEN_def
        CID_MULTIHASH_LEN_def algebra_simps)
  moreover have "set (base32_encode ?m) \<subseteq> set CID_ALPHABET"
    by (simp add: base32_encode_digits set_digits32)
  ultimately show ?thesis
    by (auto simp: is_well_formed_cid_def cid_v1_def Let_def list_all_iff)
qed

section \<open>Verdicts\<close>

lemma collect_opt_map:
  "collect_opt (map f xs) = (if \<forall>x \<in> set xs. f x \<noteq> None then Some (map (\<lambda>x. the (f x)) xs) else None)"
proof (induction xs)
  case (Cons x xs)
  then show ?case by (cases "f x") auto
qed simp

lemma list_ex_zip_map: "list_ex P (zip (map g xs) xs) = (\<exists>x \<in> set xs. P (g x, x))"
  by (induction xs) auto

definition declared_bytes :: "str \<Rightarrow> evidence_ref \<Rightarrow> str" where
  "declared_bytes source r = take (er_end r - er_start r) (drop (er_start r) source)"

lemma resolve_by_cause:
  "resolve cr source refs =
     (if refs = [] \<or> (\<exists>r \<in> set refs. er_quote r = []) then EV_EmptyEvidence
      else if source = [] \<or> (\<exists>r \<in> set refs. \<not> is_well_formed_cid (er_cid r)) then EV_UnresolvedSource
      else if \<exists>r \<in> set refs. \<not> (er_start r \<le> er_end r \<and> er_end r \<le> length source) then EV_RangeOutOfBounds
      else if \<exists>r \<in> set refs. er_cid r \<noteq> cid_v1 cr source then EV_CidMismatch
      else if \<exists>r \<in> set refs. sha256 cr (declared_bytes source r) \<noteq> sha256 cr (er_quote r) then EV_QuoteMismatch
      else EV_Resolved)"
proof (cases "\<exists>r \<in> set refs. \<not> (er_start r \<le> er_end r \<and> er_end r \<le> length source)")
  case True
  then have "collect_opt (map (\<lambda>r. slice_get source (er_start r) (er_end r)) refs) = None"
    unfolding collect_opt_map by (auto simp: slice_get_def)
  with True show ?thesis by (simp add: resolve_def list_ex_iff)
next
  case False
  then have "collect_opt (map (\<lambda>r. slice_get source (er_start r) (er_end r)) refs) =
      Some (map (\<lambda>r. the (slice_get source (er_start r) (er_end r))) refs)"
    unfolding collect_opt_map by (auto simp: slice_get_def)
  also have "map (\<lambda>r. the (slice_get source (er_start r) (er_end r))) refs = map (declared_bytes source) refs"
    using False by (simp add: slice_get_def declared_bytes_def)
  finally have "resolve cr source refs =
      (if refs = [] \<or> (\<exists>r \<in> set refs. er_quote r = []) then EV_EmptyEvidence
       else if source = [] \<or> (\<exists>r \<in> set refs. \<not> is_well_formed_cid (er_cid r)) then EV_UnresolvedSource
       else if \<exists>r \<in> set refs. er_cid r \<noteq> cid_v1 cr source then EV_CidMismatch
       else if \<exists>r \<in> set refs. sha256 cr (declared_bytes source r) \<noteq> sha256 cr (er_quote r) then EV_QuoteMismatch
       else EV_Resolved)"
    by (simp only: resolve_def Let_def list_ex_zip_map option.case prod.case) (simp only: list_ex_iff)
  with False show ?thesis by (simp only: if_False)
qed

section \<open>Properties\<close>

text \<open>
  C28. Resolved evidence binds the source.  With 32-byte digests, a resolved set of citations
  means that every quote is non-empty and either stands byte for byte at its declared range of
  the source or collides with those bytes under SHA-256; and whenever two sources resolve
  citations under the same content identifier, they are the same source or collide under
  SHA-256.
\<close>

theorem evidence_binds:
  assumes "\<And>x. length (sha256 cr x) = CID_DIGEST_LEN"
    and "resolve cr s refs = EV_Resolved" and "r \<in> set refs"
    and "resolve cr s' refs' = EV_Resolved" and "r' \<in> set refs'" and "er_cid r = er_cid r'"
  shows "er_quote r \<noteq> [] \<and> er_end r \<le> length s \<and>
         (declared_bytes s r = er_quote r \<or>
          (declared_bytes s r \<noteq> er_quote r \<and> sha256 cr (declared_bytes s r) = sha256 cr (er_quote r))) \<and>
         (s = s' \<or> (s \<noteq> s' \<and> sha256 cr s = sha256 cr s'))"
proof -
  have quote: "er_quote r \<noteq> []" "er_end r \<le> length s" "er_cid r = cid_v1 cr s"
      "sha256 cr (declared_bytes s r) = sha256 cr (er_quote r)"
    using assms(2,3) by (auto simp: resolve_by_cause split: if_splits)
  have "er_cid r' = cid_v1 cr s'"
    using assms(4,5) by (auto simp: resolve_by_cause split: if_splits)
  with quote(3) assms(6) have "sha256 cr s = sha256 cr s'"
    using cid_v1_inj [of cr s s'] assms(1) by simp
  with quote show ?thesis by blast
qed

definition demo_ref :: evidence_ref where
  "demo_ref = \<lparr>er_cid = cid_v1 const_crypto ''abcd'', er_quote = ''bc'', er_start = 1, er_end = 3\<rparr>"

lemma demo_ref_resolves: "resolve const_crypto ''abcd'' [demo_ref] = EV_Resolved"
  using cid_v1_well_formed [of const_crypto "''abcd''"]
  by (simp add: resolve_by_cause demo_ref_def CID_DIGEST_LEN_def)

theorem evidence_binds_witness: "er_quote demo_ref \<noteq> [] \<and> er_end demo_ref \<le> length ''abcd''"
  using evidence_binds [of const_crypto "''abcd''" "[demo_ref]" demo_ref "''abcd''" "[demo_ref]" demo_ref]
    demo_ref_resolves
  by (simp add: CID_DIGEST_LEN_def)

text \<open>
  The verdict is by cause, not by position.  It depends only on which citations are
  given, not on their order or repetition, and evidence can only lose by being extended: if a
  larger set resolves, so does every non-empty part of it.
\<close>

lemma verdict_order_free:
  assumes "set refs \<subseteq> set wider" and "refs \<noteq> []"
  shows "(resolve cr s wider = EV_Resolved \<longrightarrow> resolve cr s refs = EV_Resolved) \<and>
         (set refs = set wider \<longrightarrow> resolve cr s refs = resolve cr s wider)"
proof -
  have "wider \<noteq> []" using assms by auto
  then have "resolve cr s refs = resolve cr s wider" if "set refs = set wider"
    using assms(2) that by (simp only: resolve_by_cause)
  moreover have "resolve cr s refs = EV_Resolved" if "resolve cr s wider = EV_Resolved"
    using that assms by (auto simp: resolve_by_cause split: if_splits)
  ultimately show ?thesis by blast
qed

text \<open>
  The word-level encoder is base-32 notation.  The shift-and-mask loop over a 32-bit
  accumulator that is never cleared writes exactly the base-32 digits of the bytes read as one
  number, padded on the right to a whole number of digits; encodings of byte strings of equal
  length are equal only for equal strings.
\<close>

lemma base32_positional:
  "base32_encode as =
     digits32 ((8 * length as + 4) div 5) (bytes_nat as * 2 ^ (5 * ((8 * length as + 4) div 5) - 8 * length as)) \<and>
   (base32_encode as = base32_encode bs \<and> length as = length bs \<longleftrightarrow> as = bs)"
  using base32_encode_digits [of as] base32_encode_inj [of as bs] by (auto simp: b32_len_def)

end
