(* ===== verification/Rate_Limit.thy ===== *)
theory Rate_Limit
  imports Prelude "HOL-Library.Product_Lexorder" "HOL-Library.AList"
begin

text \<open>
  Load control at the HTTP edge (\<^verbatim>\<open>src/http_limit.rs\<close>): the per-address request limiter with its
  sliding window and its bound on tracked addresses, and the connection tracker with the slot
  guard.  The hash maps are association lists with distinct keys.  An \<^verbatim>\<open>Instant\<close> is an integer
  and the clock reading is an argument of each call: it is taken before the lock, so calls of
  several threads may reach the limiter with readings out of order.  A poisoned mutex is a
  flag.  The watchdog tasks only log and are left out.
\<close>

section \<open>The request limiter\<close>

type_synonym instant = int

definition RATE_LIMIT_MAX_KEYS :: nat where
  "RATE_LIMIT_MAX_KEYS = 10000"

record rate_limiter =
  rl_requests :: "(str \<times> instant list) list"
  rl_poisoned :: bool
  rl_max_requests :: nat
  rl_window :: int
  rl_max_keys :: nat

definition limiter_new :: "int \<Rightarrow> rate_limiter" where
  "limiter_new second =
     \<lparr>rl_requests = [], rl_poisoned = False, rl_max_requests = 10000, rl_window = 60 * second,
      rl_max_keys = RATE_LIMIT_MAX_KEYS\<rparr>"

text \<open>The eviction at the cap: a quarter of the buckets, the least recently used first.\<close>

definition recency_order :: "(str \<times> instant list) list \<Rightarrow> (instant \<times> str) list" where
  "recency_order reqs = sort (List.map_filter (\<lambda>(k, v). if v = [] then None else Some (last v, k)) reqs)"

definition evict :: "nat \<Rightarrow> (str \<times> instant list) list \<Rightarrow> (str \<times> instant list) list" where
  "evict max_keys reqs =
     (if length reqs \<ge> max_keys
      then let quarter = max (max_keys div 4) 1;
               victims = map snd (take quarter (recency_order reqs))
           in filter (\<lambda>(k, _). k \<notin> set victims) reqs
      else reqs)"

definition bucket :: "str \<Rightarrow> (str \<times> instant list) list \<Rightarrow> instant list" where
  "bucket ip reqs = (case map_of reqs ip of None \<Rightarrow> [] | Some ts \<Rightarrow> ts)"

definition is_allowed :: "instant \<Rightarrow> str \<Rightarrow> rate_limiter \<Rightarrow> bool \<times> rate_limiter" where
  "is_allowed now ip rl =
     (if rl_poisoned rl then (False, rl)
      else
        let reqs = evict (rl_max_keys rl) (rl_requests rl);
            entry = filter (\<lambda>t. t > now - rl_window rl) (bucket ip reqs)
        in if length entry \<ge> rl_max_requests rl
           then (False, rl\<lparr>rl_requests := AList.update ip entry reqs\<rparr>)
           else (True, rl\<lparr>rl_requests := AList.update ip (entry @ [now]) reqs\<rparr>))"

section \<open>The connection tracker\<close>

record connection_info =
  ci_id :: u64
  ci_acquired_at :: instant
  ci_location :: str

record connection_tracker =
  ct_connections :: "(u64 \<times> connection_info) list"
  ct_poisoned :: bool
  ct_next_id :: u64

definition tracker_new :: connection_tracker where
  "tracker_new = \<lparr>ct_connections = [], ct_poisoned = False, ct_next_id = 1\<rparr>"

definition track :: "instant \<Rightarrow> str \<Rightarrow> connection_tracker \<Rightarrow> u64 \<times> connection_tracker" where
  "track now location ct =
     (let i = ct_next_id ct;
          info = \<lparr>ci_id = i, ci_acquired_at = now, ci_location = location\<rparr>
      in (i, ct\<lparr>ct_next_id := i + 1,
                ct_connections := (if ct_poisoned ct then ct_connections ct
                                   else AList.update i info (ct_connections ct))\<rparr>))"

definition release :: "u64 \<Rightarrow> connection_tracker \<Rightarrow> connection_tracker" where
  "release i ct =
     ct\<lparr>ct_connections := (if ct_poisoned ct then ct_connections ct else AList.delete i (ct_connections ct))\<rparr>"

definition get_long_running :: "instant \<Rightarrow> int \<Rightarrow> connection_tracker \<Rightarrow> connection_info list" where
  "get_long_running now threshold ct =
     (if ct_poisoned ct then []
      else filter (\<lambda>info. now - ci_acquired_at info > threshold) (map snd (ct_connections ct)))"

text \<open>The slot guard: dropping it gives back exactly the slot it took.\<close>

lemma release_track:
  assumes "ct_next_id ct \<notin> fst ` set (ct_connections ct)"
  shows "ct_connections (release (fst (track now loc ct)) (snd (track now loc ct))) = ct_connections ct"
  using assms by (simp add: release_def track_def Let_def AList.delete_update_same AList.delete_id)

section \<open>Runs of the limiter\<close>

text \<open>A run over a list of calls, with the calls it admitted.\<close>

fun rl_run :: "(instant \<times> str) list \<Rightarrow> rate_limiter \<Rightarrow> (instant \<times> str) list \<times> rate_limiter" where
  "rl_run [] rl = ([], rl)"
| "rl_run ((now, ip) # calls) rl =
     (let (ok, rl1) = is_allowed now ip rl;
          (adm, rl2) = rl_run calls rl1
      in (if ok then (now, ip) # adm else adm, rl2))"

definition rl_ok :: "rate_limiter \<Rightarrow> bool" where
  "rl_ok rl \<longleftrightarrow> distinct (map fst (rl_requests rl)) \<and>
     (\<forall>(k, v) \<in> set (rl_requests rl). v \<noteq> [] \<and> length v \<le> rl_max_requests rl) \<and>
     length (rl_requests rl) \<le> max 1 (rl_max_keys rl)"

lemma limiter_new_ok: "rl_ok (limiter_new s)"
  by (simp add: rl_ok_def limiter_new_def)

lemma map_of_evict_None: "map_of reqs k = None \<Longrightarrow> map_of (evict m reqs) k = None"
  by (auto simp: evict_def Let_def map_of_eq_None_iff)

lemma evict_props:
  "distinct (map fst reqs) \<Longrightarrow> distinct (map fst (evict m reqs))"
  "set (evict m reqs) \<subseteq> set reqs"
  by (auto simp: evict_def Let_def distinct_map inj_on_def)

lemma mem_recency_order: "(x, k) \<in> set (recency_order reqs) \<Longrightarrow> k \<in> fst ` set reqs"
  by (force simp: recency_order_def map_filter_def split: if_splits)

lemma evict_shrinks:
  assumes "\<forall>(k, v) \<in> set reqs. v \<noteq> []" and "length reqs \<le> max 1 m"
  shows "length (evict m reqs) < max 1 m"
proof (cases "length reqs \<ge> m \<and> reqs \<noteq> []")
  case True
  have "length (recency_order reqs) = length reqs"
    using assms(1) by (induction reqs) (auto simp: recency_order_def map_filter_def)
  with True obtain p ps where ps: "recency_order reqs = p # ps" by (cases "recency_order reqs") auto
  let ?victims = "map snd (take (max (m div 4) 1) (recency_order reqs))"
  obtain q where "max (m div 4) 1 = Suc q" by (cases "max (m div 4) 1") auto
  then have "snd p \<in> set ?victims" by (simp add: ps)
  moreover have "snd p \<in> fst ` set reqs" using mem_recency_order [of "fst p" "snd p" reqs] ps by simp
  ultimately obtain v where "(snd p, v) \<in> set reqs" "\<not> (case (snd p, v) of (k, _) \<Rightarrow> k \<notin> set ?victims)"
    by auto
  then have "length (filter (\<lambda>(k, _). k \<notin> set ?victims) reqs) < length reqs"
    by (rule length_filter_less)
  with True assms(2) show ?thesis by (simp add: evict_def Let_def)
next
  case False
  with assms(2) show ?thesis by (auto simp: evict_def Let_def)
qed

lemma set_update: "set (AList.update k v al) \<subseteq> insert (k, v) (set al)"
  by (induction al) auto

lemma length_update: "length (AList.update k v al) \<le> Suc (length al)"
  by (induction al) auto

lemma bucket_update: "bucket k (AList.update ip v al) = (if k = ip then v else bucket k al)"
  by (simp add: bucket_def AList.update_conv')

lemma bucket_length: "\<forall>(k, v) \<in> set reqs. P v \<Longrightarrow> P [] \<Longrightarrow> P (bucket ip reqs)"
  by (auto simp: bucket_def split: option.splits dest: map_of_SomeD)

lemma is_allowed_ok:
  assumes "rl_ok rl" and "0 < rl_max_requests rl"
  shows "rl_ok (snd (is_allowed now ip rl))"
proof (cases "rl_poisoned rl")
  case False
  let ?reqs = "evict (rl_max_keys rl) (rl_requests rl)"
  let ?entry = "filter (\<lambda>t. t > now - rl_window rl) (bucket ip ?reqs)"
  let ?new = "if length ?entry \<ge> rl_max_requests rl then ?entry else ?entry @ [now]"
  have rl: "distinct (map fst (rl_requests rl))" "\<forall>(k, v) \<in> set (rl_requests rl). v \<noteq> []"
    "\<forall>(k, v) \<in> set (rl_requests rl). length v \<le> rl_max_requests rl"
    "length (rl_requests rl) \<le> max 1 (rl_max_keys rl)"
    using assms(1) by (auto simp: rl_ok_def)
  have sub: "\<forall>(k, v) \<in> set ?reqs. v \<noteq> [] \<and> length v \<le> rl_max_requests rl"
    using rl(2,3) evict_props(2) [of "rl_max_keys rl" "rl_requests rl"] by fast
  then have "length (bucket ip ?reqs) \<le> rl_max_requests rl"
    by (intro bucket_length [of ?reqs "\<lambda>v. length v \<le> rl_max_requests rl"]) auto
  then have "length ?entry \<le> rl_max_requests rl"
    by (rule order_trans [OF length_filter_le])
  then have new: "?new \<noteq> [] \<and> length ?new \<le> rl_max_requests rl" using assms(2) by auto
  have "length (AList.update ip ?new ?reqs) \<le> max 1 (rl_max_keys rl)"
    using length_update [of ip ?new ?reqs] evict_shrinks [OF rl(2,4)] by linarith
  moreover have "\<forall>(k, v) \<in> set (AList.update ip ?new ?reqs). v \<noteq> [] \<and> length v \<le> rl_max_requests rl"
  proof
    fix x
    assume "x \<in> set (AList.update ip ?new ?reqs)"
    then have "x = (ip, ?new) \<or> x \<in> set ?reqs" using set_update [of ip ?new ?reqs] by blast
    then show "case x of (k, v) \<Rightarrow> v \<noteq> [] \<and> length v \<le> rl_max_requests rl"
      using sub new by (elim disjE) (simp_all only: prod.case, blast)
  qed
  moreover have "distinct (map fst (AList.update ip ?new ?reqs))"
    by (rule AList.distinct_update) (rule evict_props(1) [OF rl(1)])
  moreover have "snd (is_allowed now ip rl) = rl\<lparr>rl_requests := AList.update ip ?new ?reqs\<rparr>"
    using False by (simp add: is_allowed_def Let_def)
  ultimately show ?thesis by (simp add: rl_ok_def)
qed (use assms in \<open>simp add: is_allowed_def\<close>)

lemma is_allowed_frame [simp]:
  "rl_poisoned (snd (is_allowed now ip rl)) = rl_poisoned rl"
  "rl_max_requests (snd (is_allowed now ip rl)) = rl_max_requests rl"
  "rl_window (snd (is_allowed now ip rl)) = rl_window rl"
  "rl_max_keys (snd (is_allowed now ip rl)) = rl_max_keys rl"
  by (simp_all add: is_allowed_def Let_def)

lemma rl_run_Cons:
  "rl_run ((now, ip) # calls) rl =
     (if fst (is_allowed now ip rl) then (now, ip) # fst (rl_run calls (snd (is_allowed now ip rl)))
      else fst (rl_run calls (snd (is_allowed now ip rl))),
      snd (rl_run calls (snd (is_allowed now ip rl))))"
  by (simp add: split_beta)

lemma rl_run_frame:
  "rl_poisoned (snd (rl_run calls rl)) = rl_poisoned rl \<and> rl_max_requests (snd (rl_run calls rl)) = rl_max_requests rl \<and>
   rl_window (snd (rl_run calls rl)) = rl_window rl \<and> rl_max_keys (snd (rl_run calls rl)) = rl_max_keys rl"
proof (induction calls arbitrary: rl)
  case (Cons c calls)
  then show ?case by (cases c) (simp only: rl_run_Cons snd_conv is_allowed_frame)
qed simp

lemma rl_run_ok: "rl_ok rl \<Longrightarrow> 0 < rl_max_requests rl \<Longrightarrow> rl_ok (snd (rl_run calls rl))"
proof (induction calls arbitrary: rl)
  case (Cons c calls)
  then show ?case by (cases c) (simp only: rl_run_Cons snd_conv is_allowed_frame is_allowed_ok)
qed simp

section \<open>The ideal sliding window\<close>

definition times_of :: "str \<Rightarrow> (instant \<times> str) list \<Rightarrow> instant list" where
  "times_of ip log = map fst (filter (\<lambda>p. snd p = ip) log)"

lemma times_of_append [simp]: "times_of ip (xs @ ys) = times_of ip xs @ times_of ip ys"
  by (simp add: times_of_def)

lemma times_of_single [simp]: "times_of ip [(t, k)] = (if k = ip then [t] else [])" "times_of ip [] = []"
  by (simp_all add: times_of_def)

text \<open>A bucket holds only admitted calls of its address, whatever was evicted.\<close>

lemma evict_lookup:
  assumes "distinct (map fst reqs)"
  shows "bucket k (evict m reqs) = bucket k reqs \<or> bucket k (evict m reqs) = []"
proof (cases "map_of (evict m reqs) k")
  case (Some v)
  then have "(k, v) \<in> set reqs" using evict_props(2) [of m reqs] by (auto dest: map_of_SomeD)
  then show ?thesis using assms Some by (simp add: bucket_def)
qed (simp add: bucket_def)

lemma bucket_is_allowed:
  fixes now ip rl
  assumes "\<not> rl_poisoned rl"
  defines "entry \<equiv> filter (\<lambda>t. t > now - rl_window rl) (bucket ip (evict (rl_max_keys rl) (rl_requests rl)))"
  shows "fst (is_allowed now ip rl) \<longleftrightarrow> length entry < rl_max_requests rl"
    and "bucket k (rl_requests (snd (is_allowed now ip rl))) =
         (if k = ip then (if length entry < rl_max_requests rl then entry @ [now] else entry)
          else bucket k (evict (rl_max_keys rl) (rl_requests rl)))"
  using assms by (simp_all add: is_allowed_def Let_def bucket_update)

lemma bucket_admitted:
  assumes "\<not> rl_poisoned rl" and "rl_ok rl" and "0 < rl_max_requests rl"
    and "\<forall>k. set (bucket k (rl_requests rl)) \<subseteq> set (times_of k log)"
  shows "\<forall>k. set (bucket k (rl_requests (snd (rl_run calls rl)))) \<subseteq> set (times_of k (log @ fst (rl_run calls rl)))"
  using assms
proof (induction calls arbitrary: rl log)
  case (Cons c calls)
  obtain now ip where c: "c = (now, ip)" by (cases c)
  let ?rl = "snd (is_allowed now ip rl)"
  let ?log = "if fst (is_allowed now ip rl) then log @ [(now, ip)] else log"
  have dist: "distinct (map fst (rl_requests rl))" using Cons.prems(2) by (simp add: rl_ok_def)
  have ev: "set (bucket k (evict (rl_max_keys rl) (rl_requests rl))) \<subseteq> set (times_of k log)" for k
    using evict_lookup [OF dist, of k "rl_max_keys rl"] Cons.prems(4) [rule_format, of k] by auto
  have "set (bucket k (rl_requests ?rl)) \<subseteq> set (times_of k ?log)" for k
    using bucket_is_allowed [OF Cons.prems(1), where now = now and ip = ip] ev [of k] ev [of ip] by (auto split: if_splits)
  then have "\<forall>k. set (bucket k (rl_requests (snd (rl_run calls ?rl)))) \<subseteq> set (times_of k (?log @ fst (rl_run calls ?rl)))"
    using Cons.prems is_allowed_ok by (intro Cons.IH) simp_all
  moreover have "log @ fst (rl_run (c # calls) rl) = ?log @ fst (rl_run calls ?rl)"
    "snd (rl_run (c # calls) rl) = snd (rl_run calls ?rl)"
    by (simp_all add: c rl_run_Cons del: rl_run.simps(2))
  ultimately show ?case by (simp only: simp_thms)
qed simp

text \<open>Below the cap the bucket is the admitted calls, as far as any present or later window sees.\<close>

definition mirrors :: "rate_limiter \<Rightarrow> (instant \<times> str) list \<Rightarrow> instant \<Rightarrow> bool" where
  "mirrors rl log now \<longleftrightarrow>
     (\<forall>ip c. now - rl_window rl \<le> c \<longrightarrow>
        filter (\<lambda>t. c < t) (bucket ip (rl_requests rl)) = filter (\<lambda>t. c < t) (times_of ip log)) \<and>
     (\<forall>p \<in> set log. fst p \<le> now)"

definition within_budget :: "nat \<Rightarrow> int \<Rightarrow> (instant \<times> str) list \<Rightarrow> bool" where
  "within_budget budget w log \<longleftrightarrow>
     (\<forall>ip T. length (filter (\<lambda>t. T - w < t \<and> t \<le> T) (times_of ip log)) \<le> budget)"

lemma length_filter_imp:
  "(\<And>x. x \<in> set xs \<Longrightarrow> P x \<Longrightarrow> Q x) \<Longrightarrow> length (filter P xs) \<le> length (filter Q xs)"
  by (induction xs) auto

lemma within_budget_snoc:
  assumes "within_budget budget w log" and "\<forall>p \<in> set log. fst p \<le> now"
    and "length (filter (\<lambda>t. now - w < t) (times_of ip log)) < budget"
  shows "within_budget budget w (log @ [(now, ip)])"
  unfolding within_budget_def
proof (intro allI)
  fix k T
  have le: "t \<le> now" if "t \<in> set (times_of k log)" for t using assms(2) that by (auto simp: times_of_def)
  have IH: "length (filter (\<lambda>t. T - w < t \<and> t \<le> T) (times_of k log)) \<le> budget"
    using assms(1) by (simp add: within_budget_def)
  show "length (filter (\<lambda>t. T - w < t \<and> t \<le> T) (times_of k (log @ [(now, ip)]))) \<le> budget"
  proof (cases "k = ip \<and> T - w < now \<and> now \<le> T")
    case True
    have "length (filter (\<lambda>t. T - w < t \<and> t \<le> T) (times_of k log)) \<le> length (filter (\<lambda>t. now - w < t) (times_of k log))"
      using True by (intro length_filter_imp) auto
    with True assms(3) show ?thesis by simp
  next
    case False
    then show ?thesis using IH by auto
  qed
qed

lemma mirrors_step:
  assumes "\<not> rl_poisoned rl" and "mirrors rl log last_now" and "last_now \<le> now"
    and "length (rl_requests rl) < rl_max_keys rl"
  shows "fst (is_allowed now ip rl) \<longleftrightarrow>
           length (filter (\<lambda>t. now - rl_window rl < t) (times_of ip log)) < rl_max_requests rl"
    and "mirrors (snd (is_allowed now ip rl)) (if fst (is_allowed now ip rl) then log @ [(now, ip)] else log) now"
proof -
  have ev: "evict (rl_max_keys rl) (rl_requests rl) = rl_requests rl" using assms(4) by (simp add: evict_def)
  let ?entry = "filter (\<lambda>t. now - rl_window rl < t) (bucket ip (rl_requests rl))"
  have eq: "filter (\<lambda>t. c < t) (bucket k (rl_requests rl)) = filter (\<lambda>t. c < t) (times_of k log)"
    if "now - rl_window rl \<le> c" for k c
    using assms(2,3) that by (simp add: mirrors_def)
  note b = bucket_is_allowed [OF assms(1), where now = now and ip = ip, unfolded ev]
  show dec: "fst (is_allowed now ip rl) \<longleftrightarrow>
      length (filter (\<lambda>t. now - rl_window rl < t) (times_of ip log)) < rl_max_requests rl"
    using b(1) eq [of "now - rl_window rl" ip] by simp
  have cut: "filter (\<lambda>t. c < t) ?entry = filter (\<lambda>t. c < t) (times_of ip log)" if "now - rl_window rl \<le> c" for c
  proof -
    have "filter (\<lambda>t. c < t) ?entry = filter (\<lambda>t. c < t) (bucket ip (rl_requests rl))"
      using that by (auto intro!: filter_cong simp: filter_filter)
    with eq [OF that] show ?thesis by simp
  qed
  have "\<forall>p \<in> set log. fst p \<le> now" using assms(2,3) by (fastforce simp: mirrors_def)
  then show "mirrors (snd (is_allowed now ip rl)) (if fst (is_allowed now ip rl) then log @ [(now, ip)] else log) now"
    unfolding mirrors_def using b(1) eq cut by (auto simp: b(2))
qed

lemma keys_is_allowed:
  "fst ` set (rl_requests (snd (is_allowed now ip rl))) \<subseteq> insert ip (fst ` set (rl_requests rl))"
  using image_mono [OF evict_props(2) [of "rl_max_keys rl" "rl_requests rl"], of fst]
  by (auto simp: is_allowed_def Let_def AList.dom_update)

lemma length_keys: "rl_ok rl \<Longrightarrow> fst ` set (rl_requests rl) \<subseteq> K \<Longrightarrow> finite K \<Longrightarrow> length (rl_requests rl) \<le> card K"
proof -
  assume ok: "rl_ok rl" and sub: "fst ` set (rl_requests rl) \<subseteq> K" and fin: "finite K"
  have "length (rl_requests rl) = card (fst ` set (rl_requests rl))"
    using ok distinct_card [of "map fst (rl_requests rl)"] by (simp add: rl_ok_def)
  then show ?thesis using card_mono [OF fin sub] by simp
qed

lemma mirrors_run:
  assumes "\<not> rl_poisoned rl" "rl_ok rl" "0 < rl_max_requests rl" "mirrors rl log last_now"
    "within_budget (rl_max_requests rl) (rl_window rl) log"
    "sorted (last_now # map fst calls)"
    "fst ` set (rl_requests rl) \<union> snd ` set calls \<subseteq> K" "finite K" "card K < rl_max_keys rl"
  shows "mirrors (snd (rl_run calls rl)) (log @ fst (rl_run calls rl)) (last (last_now # map fst calls)) \<and>
         within_budget (rl_max_requests rl) (rl_window rl) (log @ fst (rl_run calls rl)) \<and>
         length (rl_requests (snd (rl_run calls rl))) < rl_max_keys rl"
  using assms
proof (induction calls arbitrary: rl log last_now)
  case Nil
  then show ?case using length_keys [of rl K] by simp
next
  case (Cons c calls)
  obtain now ip where c: "c = (now, ip)" by (cases c)
  let ?rl = "snd (is_allowed now ip rl)"
  let ?log = "if fst (is_allowed now ip rl) then log @ [(now, ip)] else log"
  have le: "last_now \<le> now" using Cons.prems(6) by (simp add: c)
  have small: "length (rl_requests rl) < rl_max_keys rl"
    using length_keys [OF Cons.prems(2), of K] Cons.prems(7-9) by simp
  note step = mirrors_step [OF Cons.prems(1,4) le small, of ip]
  have log_le: "\<forall>p \<in> set log. fst p \<le> now" using Cons.prems(4) le by (fastforce simp: mirrors_def)
  have "within_budget (rl_max_requests rl) (rl_window rl) ?log"
    using Cons.prems(5) within_budget_snoc [OF Cons.prems(5) log_le] step(1) by simp
  moreover have "fst ` set (rl_requests ?rl) \<union> snd ` set calls \<subseteq> K"
    using keys_is_allowed [of now ip rl] Cons.prems(7) by (auto simp: c)
  ultimately have "mirrors (snd (rl_run calls ?rl)) (?log @ fst (rl_run calls ?rl)) (last (now # map fst calls)) \<and>
      within_budget (rl_max_requests rl) (rl_window rl) (?log @ fst (rl_run calls ?rl)) \<and>
      length (rl_requests (snd (rl_run calls ?rl))) < rl_max_keys rl"
    using Cons.IH [of ?rl ?log now] Cons.prems step(2) is_allowed_ok by (simp add: c)
  then show ?case by (auto simp: c rl_run_Cons simp del: rl_run.simps(2))
qed

section \<open>Properties\<close>

text \<open>
  C29. Below the cap the limiter is the ideal sliding window.  Start from an empty limiter and
  take any calls in the order of their clock readings, from fewer addresses than the cap: in
  every window no address has more admitted calls than the budget, and the next call is
  admitted exactly when fewer than the budget were admitted for its address within the window
  that ends at it.
\<close>

theorem limiter_refines_window:
  assumes "rl_requests rl0 = []" and "\<not> rl_poisoned rl0" and "0 < rl_max_requests rl0"
    and "sorted (map fst calls @ [now])" and "card (snd ` set calls) < rl_max_keys rl0"
    and "rl_run calls rl0 = (adm, rl)"
  shows "(\<forall>k T. length (filter (\<lambda>t. T - rl_window rl0 < t \<and> t \<le> T) (times_of k adm)) \<le> rl_max_requests rl0) \<and>
         (fst (is_allowed now ip rl) \<longleftrightarrow>
            length (filter (\<lambda>t. now - rl_window rl0 < t) (times_of ip adm)) < rl_max_requests rl0)"
proof -
  define first where "first = (case calls of [] \<Rightarrow> now | c # _ \<Rightarrow> fst c)"
  have ok: "rl_ok rl0" using assms(1) by (simp add: rl_ok_def)
  have mir: "mirrors rl0 [] first" using assms(1) by (simp add: mirrors_def bucket_def)
  have sorted: "sorted (first # map fst calls)"
    using assms(4) by (cases calls) (auto simp: first_def sorted_append)
  have "within_budget (rl_max_requests rl0) (rl_window rl0) []" by (simp add: within_budget_def)
  from mirrors_run [OF assms(2) ok assms(3) mir this sorted, of "snd ` set calls"] assms(1,5,6)
  have run: "mirrors rl adm (last (first # map fst calls))" "within_budget (rl_max_requests rl0) (rl_window rl0) adm"
    "length (rl_requests rl) < rl_max_keys rl0" by simp_all
  have frame: "rl_poisoned rl = rl_poisoned rl0" "rl_max_requests rl = rl_max_requests rl0"
    "rl_window rl = rl_window rl0" "rl_max_keys rl = rl_max_keys rl0"
    using rl_run_frame [of calls rl0] assms(6) by simp_all
  have "last (first # map fst calls) \<le> now"
    using assms(4) by (cases calls rule: rev_cases) (auto simp: first_def sorted_append)
  from mirrors_step(1) [OF _ run(1) this, of ip] run(2,3) frame assms(2) show ?thesis
    by (simp add: within_budget_def)
qed

definition demo_limiter :: rate_limiter where
  "demo_limiter = \<lparr>rl_requests = [], rl_poisoned = False, rl_max_requests = 1, rl_window = 60, rl_max_keys = 4\<rparr>"

theorem limiter_refines_window_witness:
  "\<not> fst (is_allowed 50 ''a'' (snd (rl_run [(10, ''a'')] demo_limiter)))"
proof -
  have run: "rl_run [(10, ''a'')] demo_limiter = ([(10, ''a'')], snd (rl_run [(10, ''a'')] demo_limiter))"
    by (simp add: demo_limiter_def is_allowed_def evict_def bucket_def)
  from limiter_refines_window [OF _ _ _ _ _ run, of 50 "''a''"] show ?thesis
    by (simp add: demo_limiter_def times_of_def)
qed

text \<open>
  The limiter recovers and its memory is bounded.  After any calls whatever, in any order
  of clock readings and with any evictions, at most the cap of addresses is tracked with at
  most the budget of readings each, and an address whose admitted calls all lie at least a
  window back is admitted.
\<close>

lemma limiter_recovers:
  assumes "rl_requests rl0 = []" and "\<not> rl_poisoned rl0" and "0 < rl_max_requests rl0"
    and "rl_run calls rl0 = (adm, rl)" and "\<forall>t. (t, ip) \<in> set adm \<longrightarrow> t + rl_window rl0 \<le> now"
  shows "fst (is_allowed now ip rl) \<and>
         length (rl_requests rl) \<le> max 1 (rl_max_keys rl0) \<and>
         (\<forall>(k, v) \<in> set (rl_requests rl). length v \<le> rl_max_requests rl0)"
proof -
  have ok0: "rl_ok rl0" using assms(1) by (simp add: rl_ok_def)
  have ok: "rl_ok rl" using rl_run_ok [OF ok0 assms(3), of calls] assms(4) by simp
  have frame: "rl_poisoned rl = rl_poisoned rl0" "rl_max_requests rl = rl_max_requests rl0"
    "rl_window rl = rl_window rl0" "rl_max_keys rl = rl_max_keys rl0"
    using rl_run_frame [of calls rl0] assms(4) by simp_all
  have adm: "set (bucket ip (rl_requests rl)) \<subseteq> set (times_of ip adm)"
    using bucket_admitted [OF assms(2) ok0 assms(3), of "[]" calls] assms(1,4) by (simp add: bucket_def)
  have "distinct (map fst (rl_requests rl))" using ok by (simp add: rl_ok_def)
  from evict_lookup [OF this, of ip "rl_max_keys rl"] adm
  have "set (bucket ip (evict (rl_max_keys rl) (rl_requests rl))) \<subseteq> set (times_of ip adm)" by auto
  moreover have "t \<le> now - rl_window rl" if "t \<in> set (times_of ip adm)" for t
    using that assms(5) frame by (auto simp: times_of_def)
  ultimately have "filter (\<lambda>t. t > now - rl_window rl) (bucket ip (evict (rl_max_keys rl) (rl_requests rl))) = []"
    by (fastforce simp: filter_empty_conv)
  then have "fst (is_allowed now ip rl)"
    using bucket_is_allowed(1) [of rl now ip] frame assms(2,3) by simp
  with ok frame show ?thesis by (auto simp: rl_ok_def)
qed

lemma limiter_recovers_witness:
  "fst (is_allowed 70 ''a'' (snd (rl_run [(10, ''a'')] demo_limiter)))"
proof -
  have run: "rl_run [(10, ''a'')] demo_limiter = ([(10, ''a'')], snd (rl_run [(10, ''a'')] demo_limiter))"
    by (simp add: demo_limiter_def is_allowed_def evict_def bucket_def)
  from limiter_recovers [OF _ _ _ run, of "''a''" 70] show ?thesis by (simp add: demo_limiter_def)
qed

end
