(* ===== verification/Compaction.thy ===== *)
theory Compaction
  imports Json_Value
begin

text \<open>
  Compaction: the prompt discipline with the plan that folds old history
  (\<^verbatim>\<open>crates/brain-engine-sdk/src/prompt.rs\<close>) and the admission decision with its signals and
  evidence (\<^verbatim>\<open>crates/brain-engine-sdk/src/harness/compaction.rs\<close>).  Token counts are natural
  numbers: a sum of window tokens does not reach the width of \<^verbatim>\<open>usize\<close>.
\<close>

section \<open>The prompt and the plan\<close>

definition COMPACT_PRESSURE_TOKENS :: nat where
  "COMPACT_PRESSURE_TOKENS = 16000"

definition KEEP_VERBATIM_TOKENS :: nat where
  "KEEP_VERBATIM_TOKENS = 20000"

datatype prompt_error = TooManyLines nat nat

definition MAX_SYSTEM_PROMPT_LINES :: nat where
  "MAX_SYSTEM_PROMPT_LINES = 20"

definition nl :: str where
  "nl = [CHR 0x0A]"

definition system_prompt :: "str list \<Rightarrow> str list \<Rightarrow> prompt_error + str" where
  "system_prompt lns skills =
     (let total = length lns + (if skills = [] then 0 else length skills + 1) in
      if total > MAX_SYSTEM_PROMPT_LINES then Inl (TooManyLines total MAX_SYSTEM_PROMPT_LINES)
      else Inr (concat (map (\<lambda>l. l @ nl) lns) @
                (if skills = [] then [] else ''skills:'' @ concat (map (\<lambda>s. '' '' @ s) skills) @ nl)))"

definition should_compact :: "nat \<Rightarrow> bool" where
  "should_compact window_tokens = (window_tokens \<ge> COMPACT_PRESSURE_TOKENS)"

record compaction_plan =
  cp_summarize_end :: nat
  cp_summary_tokens :: nat

text \<open>The loop over the history from its newest entry; \<^verbatim>\<open>i\<close> is the index of the entry at the head.\<close>

fun keep_loop :: "nat list \<Rightarrow> nat \<Rightarrow> nat \<Rightarrow> nat \<Rightarrow> nat" where
  "keep_loop [] i keep summarize_end = summarize_end"
| "keep_loop (t # ts) i keep summarize_end =
     (if keep + t > KEEP_VERBATIM_TOKENS then summarize_end
      else keep_loop ts (i - 1) (keep + t) i)"

definition compact_plan :: "nat list \<Rightarrow> compaction_plan option" where
  "compact_plan token_counts =
     (if \<not> should_compact (sum_list token_counts) then None
      else
        let e = keep_loop (rev token_counts) (length token_counts - 1) 0 0 in
        if e = 0 then None
        else Some \<lparr>cp_summarize_end = e,
                   cp_summary_tokens = min (sum_list (take e token_counts) div 4) 2000 + 16\<rparr>)"

section \<open>Signals\<close>

definition COMPACTION_ADMISSION_SCHEMA :: str where
  "COMPACTION_ADMISSION_SCHEMA = ''steward.compaction.admission.v1''"

record compaction_quota =
  cq_cooldown_ms :: u64
  cq_max_attempts :: u32

definition quota_default :: compaction_quota where
  "quota_default = \<lparr>cq_cooldown_ms = 60000, cq_max_attempts = 100\<rparr>"

record memory_signal =
  ms_available :: "u64 option"
  ms_required :: u64
  ms_pressure :: bool

definition is_pressure :: "memory_signal \<Rightarrow> bool" where
  "is_pressure m = (ms_pressure m \<or> (case ms_available m of None \<Rightarrow> False | Some a \<Rightarrow> a < ms_required m))"

record provider_signal =
  ps_p95 :: "u64 option"
  ps_max_p95 :: "u64 option"
  ps_rate :: "u16 option"
  ps_max_rate :: "u16 option"
  ps_stale :: bool
  ps_degraded :: bool

definition exceeds :: "('a::ord) option \<Rightarrow> 'a option \<Rightarrow> bool" where
  "exceeds x limit = (case (x, limit) of (Some a, Some b) \<Rightarrow> a > b | _ \<Rightarrow> False)"

definition is_degraded :: "provider_signal \<Rightarrow> bool" where
  "is_degraded p =
     (ps_degraded p \<or> ps_stale p \<or> exceeds (ps_p95 p) (ps_max_p95 p) \<or> exceeds (ps_rate p) (ps_max_rate p))"

record queue_signal =
  qs_queued :: u32
  qs_max_queued :: u32
  qs_saturated :: bool

definition is_saturated :: "queue_signal \<Rightarrow> bool" where
  "is_saturated q = (qs_saturated q \<or> (qs_max_queued q > 0 \<and> qs_queued q \<ge> qs_max_queued q))"

record admission_signals =
  sg_memory :: "memory_signal option"
  sg_provider :: "provider_signal option"
  sg_queue :: "queue_signal option"

datatype signals_error = SE_NotAnObject | SE_UnknownSignal str | SE_Malformed str

definition reject_unknown_keys :: "(str \<times> json) list \<Rightarrow> str list \<Rightarrow> signals_error + unit" where
  "reject_unknown_keys obj known =
     (case List.find (\<lambda>k. k \<notin> set known) (map fst obj) of
        Some k \<Rightarrow> Inl (SE_UnknownSignal k)
      | None \<Rightarrow> Inr ())"

text \<open>\<^verbatim>\<open>ok_or\<close> and the question mark.\<close>

definition ok_or :: "'e \<Rightarrow> 'a option \<Rightarrow> 'e + 'a" where
  "ok_or e x = (case x of None \<Rightarrow> Inl e | Some a \<Rightarrow> Inr a)"

definition and_then :: "'e + 'a \<Rightarrow> ('a \<Rightarrow> 'e + 'b) \<Rightarrow> 'e + 'b" where
  "and_then r f = (case r of Inl e \<Rightarrow> Inl e | Inr a \<Rightarrow> f a)"

definition opt_value :: "(json \<Rightarrow> 'a option) \<Rightarrow> str \<Rightarrow> json \<Rightarrow> signals_error + 'a option" where
  "opt_value read why n =
     (if n = J_Null then Inr None
      else case read n of Some x \<Rightarrow> Inr (Some x) | None \<Rightarrow> Inl (SE_Malformed why))"

definition opt_field :: "(json \<Rightarrow> 'a option) \<Rightarrow> str \<Rightarrow> (str \<times> json) list \<Rightarrow> str \<Rightarrow> signals_error + 'a option" where
  "opt_field read why obj key =
     (case map_of obj key of None \<Rightarrow> Inr None | Some n \<Rightarrow> opt_value read why n)"

definition req_field :: "(json \<Rightarrow> 'a option) \<Rightarrow> str \<Rightarrow> (str \<times> json) list \<Rightarrow> str \<Rightarrow> signals_error + 'a" where
  "req_field read why obj key = ok_or (SE_Malformed why) (Option.bind (map_of obj key) read)"

definition as_u16 :: "json \<Rightarrow> u16 option" where
  "as_u16 v = Option.bind (as_u64 v) (\<lambda>n. if unat n < 2 ^ 16 then Some (word_of_nat (unat n)) else None)"

definition as_u32 :: "json \<Rightarrow> u32 option" where
  "as_u32 v = Option.bind (as_u64 v) (\<lambda>n. if unat n < 2 ^ 32 then Some (word_of_nat (unat n)) else None)"

definition memory_from_json :: "json \<Rightarrow> signals_error + memory_signal" where
  "memory_from_json v =
     and_then (ok_or (SE_Malformed ''memory'') (as_object v)) (\<lambda>m.
     and_then (reject_unknown_keys m [''available_bytes'', ''required_headroom_bytes'', ''pressure'']) (\<lambda>_.
     and_then (req_field as_u64 ''memory.required_headroom_bytes'' m ''required_headroom_bytes'') (\<lambda>required.
     and_then (opt_field as_u64 ''memory.available_bytes'' m ''available_bytes'') (\<lambda>available.
     and_then (req_field as_bool ''memory.pressure'' m ''pressure'') (\<lambda>pressure.
     Inr \<lparr>ms_available = available, ms_required = required, ms_pressure = pressure\<rparr>)))))"

definition provider_from_json :: "json \<Rightarrow> signals_error + provider_signal" where
  "provider_from_json v =
     and_then (ok_or (SE_Malformed ''provider'') (as_object v)) (\<lambda>p.
     and_then (reject_unknown_keys p [''p95_latency_ms'', ''max_p95_latency_ms'', ''error_rate_per_mille'',
       ''max_error_rate_per_mille'', ''stale'', ''degraded'']) (\<lambda>_.
     and_then (opt_field as_u64 ''provider integer field'' p ''p95_latency_ms'') (\<lambda>p95.
     and_then (opt_field as_u64 ''provider integer field'' p ''max_p95_latency_ms'') (\<lambda>max_p95.
     and_then (opt_field as_u16 ''provider rate field'' p ''error_rate_per_mille'') (\<lambda>rate.
     and_then (opt_field as_u16 ''provider rate field'' p ''max_error_rate_per_mille'') (\<lambda>max_rate.
     and_then (req_field as_bool ''provider.stale'' p ''stale'') (\<lambda>stale.
     and_then (req_field as_bool ''provider.degraded'' p ''degraded'') (\<lambda>degraded.
     Inr \<lparr>ps_p95 = p95, ps_max_p95 = max_p95, ps_rate = rate, ps_max_rate = max_rate,
          ps_stale = stale, ps_degraded = degraded\<rparr>))))))))"

definition queue_from_json :: "json \<Rightarrow> signals_error + queue_signal" where
  "queue_from_json v =
     and_then (ok_or (SE_Malformed ''queue'') (as_object v)) (\<lambda>q.
     and_then (reject_unknown_keys q [''queued_requests'', ''max_queued_requests'', ''saturated'']) (\<lambda>_.
     and_then (req_field as_u32 ''queue integer field'' q ''queued_requests'') (\<lambda>queued.
     and_then (req_field as_u32 ''queue integer field'' q ''max_queued_requests'') (\<lambda>max_queued.
     and_then (req_field as_bool ''queue.saturated'' q ''saturated'') (\<lambda>saturated.
     Inr \<lparr>qs_queued = queued, qs_max_queued = max_queued, qs_saturated = saturated\<rparr>)))))"

definition section_of :: "(json \<Rightarrow> signals_error + 'a) \<Rightarrow> json option \<Rightarrow> signals_error + 'a option" where
  "section_of parse v =
     (case v of
        None \<Rightarrow> Inr None
      | Some x \<Rightarrow> if x = J_Null then Inr None else and_then (parse x) (\<lambda>s. Inr (Some s)))"

definition signals_from_json :: "json \<Rightarrow> signals_error + admission_signals" where
  "signals_from_json value =
     and_then (ok_or SE_NotAnObject (as_object value)) (\<lambda>obj.
     and_then (reject_unknown_keys obj [''memory'', ''provider'', ''queue'']) (\<lambda>_.
     and_then (section_of memory_from_json (map_of obj ''memory'')) (\<lambda>memory.
     and_then (section_of provider_from_json (map_of obj ''provider'')) (\<lambda>provider.
     and_then (section_of queue_from_json (map_of obj ''queue'')) (\<lambda>queue.
     Inr \<lparr>sg_memory = memory, sg_provider = provider, sg_queue = queue\<rparr>)))))"

fun j_word :: "'a::len word option \<Rightarrow> json" where
  "j_word None = J_Null"
| "j_word (Some w) = J_Int (uint w)"

definition memory_to_json :: "memory_signal \<Rightarrow> json" where
  "memory_to_json m =
     J_Obj [(''available_bytes'', j_word (ms_available m)), (''pressure'', J_Bool (ms_pressure m)),
            (''required_headroom_bytes'', J_Int (uint (ms_required m)))]"

definition provider_to_json :: "provider_signal \<Rightarrow> json" where
  "provider_to_json p =
     J_Obj [(''degraded'', J_Bool (ps_degraded p)), (''error_rate_per_mille'', j_word (ps_rate p)),
            (''max_error_rate_per_mille'', j_word (ps_max_rate p)), (''max_p95_latency_ms'', j_word (ps_max_p95 p)),
            (''p95_latency_ms'', j_word (ps_p95 p)), (''stale'', J_Bool (ps_stale p))]"

definition queue_to_json :: "queue_signal \<Rightarrow> json" where
  "queue_to_json q =
     J_Obj [(''max_queued_requests'', J_Int (uint (qs_max_queued q))), (''queued_requests'', J_Int (uint (qs_queued q))),
            (''saturated'', J_Bool (qs_saturated q))]"

definition j_section :: "('a \<Rightarrow> json) \<Rightarrow> 'a option \<Rightarrow> json" where
  "j_section f x = (case x of None \<Rightarrow> J_Null | Some a \<Rightarrow> f a)"

definition signals_to_json :: "admission_signals \<Rightarrow> json" where
  "signals_to_json s =
     J_Obj [(''memory'', j_section memory_to_json (sg_memory s)),
            (''provider'', j_section provider_to_json (sg_provider s)),
            (''queue'', j_section queue_to_json (sg_queue s))]"

section \<open>Admission\<close>

record compaction_settings =
  cs_pressure_tokens :: nat
  cs_keep_verbatim_tokens :: nat

definition settings_new :: compaction_settings where
  "settings_new = \<lparr>cs_pressure_tokens = COMPACT_PRESSURE_TOKENS, cs_keep_verbatim_tokens = KEEP_VERBATIM_TOKENS\<rparr>"

record compaction_preparation =
  pr_tokens_before :: u64

record admission_state =
  as_pending :: bool
  as_attempt_count :: u32
  as_cooldown_remaining :: u64

datatype admission_reason =
    AR_Allowed | AR_Pending | AR_SessionAttemptLimit | AR_Cooldown | AR_NoPreparation
  | AR_MemoryPressure | AR_ProviderDegraded | AR_QueueSaturated

fun reason_as_str :: "admission_reason \<Rightarrow> str" where
  "reason_as_str AR_Allowed = ''allowed''"
| "reason_as_str AR_Pending = ''pending''"
| "reason_as_str AR_SessionAttemptLimit = ''session_attempt_limit''"
| "reason_as_str AR_Cooldown = ''cooldown''"
| "reason_as_str AR_NoPreparation = ''no_preparation''"
| "reason_as_str AR_MemoryPressure = ''memory_pressure''"
| "reason_as_str AR_ProviderDegraded = ''provider_degraded''"
| "reason_as_str AR_QueueSaturated = ''queue_saturated''"

record admission_outcome =
  ad_schema :: str
  ad_allowed :: bool
  ad_reason :: admission_reason
  ad_tokens_before :: "u64 option"
  ad_attempt_count :: u32
  ad_max_attempts :: u32
  ad_cooldown_remaining :: u64
  ad_signals :: admission_signals

definition outcome_to_json :: "admission_outcome \<Rightarrow> json" where
  "outcome_to_json d =
     J_Obj [(''allowed'', J_Bool (ad_allowed d)), (''attempt_count'', J_Int (uint (ad_attempt_count d))),
            (''cooldown_remaining_ms'', J_Int (uint (ad_cooldown_remaining d))),
            (''max_attempts_per_session'', J_Int (uint (ad_max_attempts d))),
            (''reason'', J_Str (reason_as_str (ad_reason d))), (''schema'', J_Str (ad_schema d)),
            (''signals'', signals_to_json (ad_signals d)), (''tokens_before'', j_word (ad_tokens_before d))]"

definition quota_block_reason :: "admission_state \<Rightarrow> compaction_quota \<Rightarrow> admission_reason option" where
  "quota_block_reason st quota =
     (if as_pending st then Some AR_Pending
      else if as_attempt_count st \<ge> cq_max_attempts quota then Some AR_SessionAttemptLimit
      else if as_cooldown_remaining st > 0 then Some AR_Cooldown
      else None)"

definition demand_block_reason :: "compaction_settings \<Rightarrow> compaction_preparation option \<Rightarrow> admission_reason option" where
  "demand_block_reason settings preparation =
     (case preparation of
        None \<Rightarrow> Some AR_NoPreparation
      | Some prep \<Rightarrow>
          if unat (pr_tokens_before prep) < cs_pressure_tokens settings then Some AR_NoPreparation else None)"

definition blocks :: "('a \<Rightarrow> bool) \<Rightarrow> 'a option \<Rightarrow> bool" where
  "blocks P x = (case x of None \<Rightarrow> False | Some a \<Rightarrow> P a)"

definition signal_block_reason :: "admission_signals \<Rightarrow> admission_reason option" where
  "signal_block_reason s =
     (if blocks is_pressure (sg_memory s) then Some AR_MemoryPressure
      else if blocks is_degraded (sg_provider s) then Some AR_ProviderDegraded
      else if blocks is_saturated (sg_queue s) then Some AR_QueueSaturated
      else None)"

definition or_else :: "'a option \<Rightarrow> 'a option \<Rightarrow> 'a option" where
  "or_else x y = (case x of None \<Rightarrow> y | Some a \<Rightarrow> Some a)"

definition admission_decision ::
    "admission_state \<Rightarrow> compaction_quota \<Rightarrow> compaction_settings \<Rightarrow> compaction_preparation option \<Rightarrow>
     admission_signals \<Rightarrow> admission_outcome" where
  "admission_decision st quota settings preparation signals =
     (let reason = (case or_else (or_else (quota_block_reason st quota) (demand_block_reason settings preparation))
                            (signal_block_reason signals) of
                      None \<Rightarrow> AR_Allowed | Some r \<Rightarrow> r)
      in \<lparr>ad_schema = COMPACTION_ADMISSION_SCHEMA, ad_allowed = (reason = AR_Allowed), ad_reason = reason,
          ad_tokens_before = map_option pr_tokens_before preparation, ad_attempt_count = as_attempt_count st,
          ad_max_attempts = cq_max_attempts quota, ad_cooldown_remaining = as_cooldown_remaining st,
          ad_signals = signals\<rparr>)"

section \<open>Evidence\<close>

text \<open>The entry of a \<^verbatim>\<open>BTreeMap\<close> of counters.\<close>

fun bump :: "str \<Rightarrow> (str \<times> nat) list \<Rightarrow> (str \<times> nat) list" where
  "bump k [] = [(k, 1)]"
| "bump k ((j, n) # m) =
     (if k = j then (j, n + 1) # m
      else if k < j then (k, 1) # (j, n) # m
      else (j, n) # bump k m)"

definition rejected_by_reason :: "admission_outcome list \<Rightarrow> (str \<times> nat) list" where
  "rejected_by_reason ds =
     fold (\<lambda>d m. if ad_allowed d then m else bump (reason_as_str (ad_reason d)) m) ds []"

definition compaction_admission_evidence :: "admission_outcome list \<Rightarrow> u64 \<Rightarrow> u64 \<Rightarrow> json" where
  "compaction_admission_evidence ds p95 p99 =
     (let admitted = length (filter ad_allowed ds) in
      J_Obj [(''admittedCount'', J_Int (int admitted)), (''decisionCount'', J_Int (int (length ds))),
             (''decisions'', J_Arr (map outcome_to_json ds)),
             (''foregroundImpact'', J_Obj [(''p95Ms'', J_Int (uint p95)), (''p99Ms'', J_Int (uint p99)),
                                           (''source'', J_Str ''deterministic_fixture'')]),
             (''rejectedByReason'', J_Obj (map (\<lambda>(k, n). (k, J_Int (int n))) (rejected_by_reason ds))),
             (''rejectedCount'', J_Int (int (length ds - admitted))),
             (''schema'', J_Str COMPACTION_ADMISSION_SCHEMA)])"

section \<open>Lemmas\<close>



lemma unat_through_u64:
  fixes w :: "'a::len word"
  assumes "LENGTH('a) \<le> 64"
  shows "unat (word_of_int (uint w) :: u64) = unat w"
proof -
  have "(2::nat) ^ LENGTH('a) \<le> 2 ^ 64" by (rule power_increasing [OF assms]) simp
  with unsigned_less [of w, where 'a = nat] have "unat w < 2 ^ 64" by (rule less_le_trans)
  then have "unat w < 2 ^ LENGTH(64)" by simp
  moreover have "(word_of_int (uint w) :: u64) = word_of_nat (unat w)"
    by (simp only: uint_nat of_int_of_nat_eq)
  ultimately show ?thesis by (simp only: unat_of_nat mod_less)
qed

lemma as_u64_small:
  fixes w :: "'a::len word"
  assumes "LENGTH('a) \<le> 64"
  shows "as_u64 (J_Int (uint w)) = Some (word_of_int (uint w))"
proof -
  have "(2::int) ^ LENGTH('a) \<le> 2 ^ 64" by (rule power_increasing [OF assms]) simp
  then have "uint w < 2 ^ 64" using uint_lt2p [of w] by linarith
  then show ?thesis by (simp add: as_u64.simps)
qed

lemma as_u16_uint [simp]: "as_u16 (J_Int (uint w)) = Some w"
proof -
  have "unat w < 2 ^ 16" using unsigned_less [of w, where 'a = nat] by simp
  moreover have "LENGTH(16) \<le> 64" by simp
  ultimately show ?thesis
    by (simp only: as_u16_def as_u64_small unat_through_u64 Option.bind.simps if_True) simp
qed

lemma as_u32_uint [simp]: "as_u32 (J_Int (uint w)) = Some w"
proof -
  have "unat w < 2 ^ 32" using unsigned_less [of w, where 'a = nat] by simp
  moreover have "LENGTH(32) \<le> 64" by simp
  ultimately show ?thesis
    by (simp only: as_u32_def as_u64_small unat_through_u64 Option.bind.simps if_True) simp
qed

lemma opt_value_word [simp]:
  "opt_value as_u64 why (j_word x) = Inr x" "opt_value as_u16 why (j_word y) = Inr y"
  by (cases x; simp add: opt_value_def) (cases y; simp add: opt_value_def)

lemmas parse_simps = and_then_def ok_or_def req_field_def opt_field_def reject_unknown_keys_def

lemma memory_roundtrip: "memory_from_json (memory_to_json m) = Inr m"
  by (simp add: memory_from_json_def memory_to_json_def parse_simps)

lemma provider_roundtrip: "provider_from_json (provider_to_json p) = Inr p"
  by (simp add: provider_from_json_def provider_to_json_def parse_simps)

lemma queue_roundtrip: "queue_from_json (queue_to_json q) = Inr q"
  by (simp add: queue_from_json_def queue_to_json_def parse_simps)

lemma section_roundtrip:
  "(\<And>x. parse (render x) = Inr x) \<Longrightarrow> (\<And>x. render x \<noteq> J_Null) \<Longrightarrow>
   section_of parse (Some (j_section render s)) = Inr s"
  by (cases s) (simp_all add: section_of_def j_section_def and_then_def)

lemma sections_roundtrip [simp]:
  "section_of memory_from_json (Some (j_section memory_to_json m)) = Inr m"
  "section_of provider_from_json (Some (j_section provider_to_json p)) = Inr p"
  "section_of queue_from_json (Some (j_section queue_to_json q)) = Inr q"
  by (rule section_roundtrip,
      simp add: memory_roundtrip provider_roundtrip queue_roundtrip,
      simp add: memory_to_json_def provider_to_json_def queue_to_json_def)+

lemma signals_roundtrip: "signals_from_json (signals_to_json s) = Inr s"
  by (simp add: signals_from_json_def signals_to_json_def parse_simps)

text \<open>The counters of rejections.\<close>

lemma map_of_bump:
  "sorted_wrt (<) (map fst m) \<Longrightarrow>
   map_of (bump k m) = (map_of m)(k \<mapsto> (case map_of m k of None \<Rightarrow> 1 | Some n \<Rightarrow> n + 1))"
proof (induction k m rule: bump.induct)
  case (2 k j n m)
  show ?case
  proof (cases "k < j")
    case True
    then have "k \<notin> fst ` set m" "k \<noteq> j" using "2.prems" by auto
    then have "map_of m k = None" by (simp add: map_of_eq_None_iff)
    with True \<open>k \<noteq> j\<close> show ?thesis by (auto simp: fun_eq_iff)
  next
    case False
    with 2 show ?thesis by (auto simp: fun_upd_twist)
  qed
qed simp

lemma keys_bump: "set (map fst (bump k m)) = insert k (set (map fst m))"
  by (induction k m rule: bump.induct) auto

lemma sorted_bump: "sorted_wrt (<) (map fst m) \<Longrightarrow> sorted_wrt (<) (map fst (bump k m))"
proof (induction k m rule: bump.induct)
  case (2 k j n m)
  then show ?case using keys_bump [of k m] by (auto simp: not_less order.order_iff_strict)
qed simp

definition rejections :: "admission_outcome list \<Rightarrow> str \<Rightarrow> nat" where
  "rejections ds k = length (filter (\<lambda>d. \<not> ad_allowed d \<and> reason_as_str (ad_reason d) = k) ds)"

lemma rejected_by_reason_snoc:
  "rejected_by_reason (ds @ [d]) =
     (if ad_allowed d then rejected_by_reason ds else bump (reason_as_str (ad_reason d)) (rejected_by_reason ds))"
  by (simp add: rejected_by_reason_def)

lemma rejected_by_reason_counts:
  "sorted_wrt (<) (map fst (rejected_by_reason ds)) \<and>
   (\<forall>k. map_of (rejected_by_reason ds) k = (if rejections ds k = 0 then None else Some (rejections ds k)))"
proof (induction ds rule: rev_induct)
  case Nil
  then show ?case by (simp add: rejected_by_reason_def rejections_def)
next
  case (snoc d ds)
  then show ?case
    by (auto simp: rejected_by_reason_snoc sorted_bump map_of_bump rejections_def)
qed

section \<open>Properties\<close>

text \<open>
  Admission is exact and its evidence accounts for every decision.  Compaction is admitted
  exactly when none is in flight, attempts remain, the cooldown is over, the caller measured a
  window at or above the pressure floor and no sampled signal objects; the signals of a
  decision are read back from their JSON form unchanged; and in the evidence of a series the
  rejections are listed once per reason, each with the number of decisions rejected for it.
\<close>

lemma admission_exact:
  "(ad_allowed (admission_decision st quota settings prep sg) \<longleftrightarrow>
      \<not> as_pending st \<and> as_attempt_count st < cq_max_attempts quota \<and> as_cooldown_remaining st = 0 \<and>
      (\<exists>p. prep = Some p \<and> cs_pressure_tokens settings \<le> unat (pr_tokens_before p)) \<and>
      \<not> blocks is_pressure (sg_memory sg) \<and> \<not> blocks is_degraded (sg_provider sg) \<and>
      \<not> blocks is_saturated (sg_queue sg)) \<and>
   signals_from_json (signals_to_json sg) = Inr sg \<and>
   sorted_wrt (<) (map fst (rejected_by_reason ds)) \<and>
   map_of (rejected_by_reason ds) k = (if rejections ds k = 0 then None else Some (rejections ds k))"
proof -
  have "ad_allowed (admission_decision st quota settings prep sg) \<longleftrightarrow>
      quota_block_reason st quota = None \<and> demand_block_reason settings prep = None \<and> signal_block_reason sg = None"
    by (auto simp: admission_decision_def Let_def or_else_def quota_block_reason_def demand_block_reason_def
        signal_block_reason_def split: option.splits)
  also have "\<dots> \<longleftrightarrow> \<not> as_pending st \<and> as_attempt_count st < cq_max_attempts quota \<and> as_cooldown_remaining st = 0 \<and>
      (\<exists>p. prep = Some p \<and> cs_pressure_tokens settings \<le> unat (pr_tokens_before p)) \<and>
      \<not> blocks is_pressure (sg_memory sg) \<and> \<not> blocks is_degraded (sg_provider sg) \<and>
      \<not> blocks is_saturated (sg_queue sg)"
    by (auto simp: quota_block_reason_def demand_block_reason_def signal_block_reason_def not_le word_gt_0
        split: option.splits)
  finally show ?thesis using signals_roundtrip rejected_by_reason_counts by blast
qed



text \<open>The summary may outweigh what it replaces.\<close>

lemma summary_outweighs_folded:
  "compact_plan [1, 20000] = Some \<lparr>cp_summarize_end = 1, cp_summary_tokens = 16\<rparr>"
  by (simp add: compact_plan_def should_compact_def COMPACT_PRESSURE_TOKENS_def KEEP_VERBATIM_TOKENS_def)

end
