(* ===== verification/Chunker.thy ===== *)
theory Chunker
  imports Prelude
begin

text \<open>
  The Markdown chunker (\<^verbatim>\<open>src/chunker.rs\<close>).  The event stream of the Markdown parser, each
  event with its byte range, is an argument; text is a byte string.  A loop variable of the
  code is a field of the state \<^verbatim>\<open>chunk_state\<close>.  The loop that cuts an oversized line takes as
  fuel the length of the line, which is enough because a cut is never empty on UTF-8 text.
\<close>

section \<open>Text\<close>

definition MAX_CHUNK_BYTES :: nat where
  "MAX_CHUNK_BYTES = 1000"

definition MAX_CODE_CHUNK_BYTES :: nat where
  "MAX_CODE_CHUNK_BYTES = 8 * MAX_CHUNK_BYTES"

definition lf :: char where
  "lf = CHR 0x0A"

definition sub_str :: "str \<Rightarrow> nat \<Rightarrow> nat \<Rightarrow> str" where
  "sub_str s a b = take (b - a) (drop a s)"

definition cont_byte :: "char \<Rightarrow> bool" where
  "cont_byte c \<longleftrightarrow> 128 \<le> (of_char c :: nat) \<and> (of_char c :: nat) < 192"

definition is_char_boundary :: "str \<Rightarrow> nat \<Rightarrow> bool" where
  "is_char_boundary s i \<longleftrightarrow> i = 0 \<or> i = length s \<or> (i < length s \<and> \<not> cont_byte (s ! i))"

fun floor_char_boundary :: "str \<Rightarrow> nat \<Rightarrow> nat" where
  "floor_char_boundary s 0 = 0"
| "floor_char_boundary s (Suc i) =
     (if Suc i \<ge> length s then length s
      else if is_char_boundary s (Suc i) then Suc i
      else floor_char_boundary s i)"

definition ceil_char_boundary :: "str \<Rightarrow> nat \<Rightarrow> nat" where
  "ceil_char_boundary s i =
     (if i \<ge> length s then length s
      else i + length (takeWhile (\<lambda>j. \<not> is_char_boundary s j) [i..<length s]))"

definition safe_slice :: "str \<Rightarrow> nat \<Rightarrow> nat \<Rightarrow> str" where
  "safe_slice content a b =
     (if a \<ge> b \<or> a \<ge> length content then []
      else sub_str content (floor_char_boundary content (min a (length content)))
             (ceil_char_boundary content (min b (length content))))"

definition line_start_offsets :: "str \<Rightarrow> nat list" where
  "line_start_offsets content = 0 # map Suc (filter (\<lambda>i. content ! i = lf) [0..<length content])"

text \<open>\<^verbatim>\<open>binary_search\<close> on an ascending table without repetitions: the index of a hit, or where
  the value would be inserted.\<close>

definition binary_search :: "nat list \<Rightarrow> nat \<Rightarrow> nat + nat" where
  "binary_search xs x =
     (let i = length (takeWhile (\<lambda>y. y < x) xs) in
      if i < length xs \<and> xs ! i = x then Inr i else Inl i)"

definition byte_to_line :: "nat list \<Rightarrow> nat \<Rightarrow> nat" where
  "byte_to_line starts off = (case binary_search starts off of Inr i \<Rightarrow> i + 1 | Inl i \<Rightarrow> i)"

section \<open>The pending range\<close>

record chunk =
  ck_text :: str
  ck_heading :: str
  ck_line_start :: nat
  ck_line_end :: nat

definition extend_buf :: "nat option \<times> nat \<Rightarrow> nat \<Rightarrow> nat \<Rightarrow> nat option \<times> nat" where
  "extend_buf buf a b =
     (if a \<ge> b then buf
      else case buf of
        (None, _) \<Rightarrow> (Some a, b)
      | (Some cs, ce) \<Rightarrow> (Some (if a < cs then a else cs), if b > ce then b else ce))"

definition find_lf :: "str \<Rightarrow> nat \<Rightarrow> nat \<Rightarrow> nat option" where
  "find_lf content a b = List.find (\<lambda>i. content ! i = lf) [a..<b]"

definition rfind_lf :: "str \<Rightarrow> nat \<Rightarrow> nat \<Rightarrow> nat option" where
  "rfind_lf content a b = List.find (\<lambda>i. content ! i = lf) (rev [a..<b])"

definition blank :: "str \<Rightarrow> nat \<Rightarrow> nat \<Rightarrow> bool" where
  "blank content a b \<longleftrightarrow> trim (safe_slice content a b) = []"

lemma find_lf_bounds: "find_lf content a b = Some i \<Longrightarrow> a \<le> i \<and> i < b \<and> content ! i = lf"
  by (auto simp: find_lf_def find_Some_iff)

lemma rfind_lf_bounds: "rfind_lf content a b = Some i \<Longrightarrow> a \<le> i \<and> i < b \<and> content ! i = lf"
  by (auto simp: rfind_lf_def find_Some_iff in_set_conv_nth [symmetric] dest!: nth_mem)
     (metis (no_types, lifting) atLeastLessThan_iff length_rev length_upt nth_mem set_rev set_upt)+

function trim_leading :: "str \<Rightarrow> nat \<Rightarrow> nat \<Rightarrow> nat" where
  "trim_leading content a b =
     (if a < b then
        let e = (case find_lf content a b of None \<Rightarrow> b | Some i \<Rightarrow> i) in
        if blank content a e then trim_leading content (e + 1) b else a
      else a)"
  by pat_completeness auto
termination
  by (relation "measure (\<lambda>(content, a, b). b - a)") (auto dest: find_lf_bounds split: option.splits)

declare trim_leading.simps [simp del]

text \<open>\<^verbatim>\<open>None\<close> is the early return that drops the pending range.\<close>

function trim_trailing :: "str \<Rightarrow> nat \<Rightarrow> nat \<Rightarrow> nat option" where
  "trim_trailing content a b =
     (if a < b then
        (case rfind_lf content a b of
           Some i \<Rightarrow> if blank content (i + 1) b then trim_trailing content a i else Some b
         | None \<Rightarrow> if blank content a b then None else Some b)
      else Some b)"
  by pat_completeness auto
termination
  by (relation "measure (\<lambda>(content, a, b). b)") (auto dest: rfind_lf_bounds)

declare trim_trailing.simps [simp del]

definition flush_range :: "str \<Rightarrow> nat \<Rightarrow> nat \<Rightarrow> (nat \<times> nat) option" where
  "flush_range content a0 b0 =
     (if a0 \<ge> b0 then None
      else
        let a = trim_leading content a0 b0 in
        case trim_trailing content a b0 of
          None \<Rightarrow> None
        | Some b \<Rightarrow>
            if a \<ge> b then None
            else Some (a, if b - 1 < length content \<and> content ! (b - 1) = lf then b - 1 else b))"

definition flush_buf :: "str \<Rightarrow> nat list \<Rightarrow> nat option \<times> nat \<Rightarrow> str \<Rightarrow> chunk list \<Rightarrow> (nat option \<times> nat) \<times> chunk list" where
  "flush_buf content starts buf heading chunks =
     (case buf of
        (None, ce) \<Rightarrow> ((None, ce), chunks)
      | (Some cs, ce) \<Rightarrow>
          ((None, ce),
           case flush_range content cs ce of
             None \<Rightarrow> chunks
           | Some (a, b) \<Rightarrow>
               chunks @ [\<lparr>ck_text = safe_slice content a b, ck_heading = heading,
                          ck_line_start = byte_to_line starts a,
                          ck_line_end = byte_to_line starts (max (b - 1) a)\<rparr>]))"

section \<open>Events\<close>

datatype heading_level = H1 | H2 | H3 | H4 | H5 | H6

fun heading_level_to_usize :: "heading_level \<Rightarrow> nat" where
  "heading_level_to_usize H1 = 1"
| "heading_level_to_usize H2 = 2"
| "heading_level_to_usize H3 = 3"
| "heading_level_to_usize H4 = 4"
| "heading_level_to_usize H5 = 5"
| "heading_level_to_usize H6 = 6"

datatype md_event =
    Start_Heading heading_level | End_Heading | Start_CodeBlock | End_CodeBlock | Text str | Other_Event

record chunk_state =
  st_chunks :: "chunk list"
  st_stack :: "(nat \<times> str) list"
  st_heading :: str
  st_buf :: "nat option \<times> nat"
  st_in_heading :: bool
  st_pending :: "nat option"
  st_title :: str
  st_depth :: nat

fun breadcrumb :: "(nat \<times> str) list \<Rightarrow> str" where
  "breadcrumb [] = []"
| "breadcrumb [(_, t)] = t"
| "breadcrumb ((_, t) # r # rs) = t @ '' > '' @ breadcrumb (r # rs)"

definition flush_state :: "str \<Rightarrow> nat list \<Rightarrow> chunk_state \<Rightarrow> chunk_state" where
  "flush_state content starts s =
     (let (buf, chunks) = flush_buf content starts (st_buf s) (st_heading s) (st_chunks s)
      in s\<lparr>st_buf := buf, st_chunks := chunks\<rparr>)"

definition end_heading :: "chunk_state \<Rightarrow> chunk_state" where
  "end_heading s =
     (let s1 = (case st_pending s of
                  None \<Rightarrow> s
                | Some lvl \<Rightarrow>
                    let title = trim (st_title s) in
                    if title = [] then s\<lparr>st_pending := None\<rparr>
                    else let stack = filter (\<lambda>(l, _). l < lvl) (st_stack s) @ [(lvl, title)] in
                      s\<lparr>st_pending := None, st_stack := stack, st_heading := breadcrumb stack\<rparr>)
      in s1\<lparr>st_title := [], st_in_heading := False\<rparr>)"

definition on_event :: "str \<Rightarrow> nat list \<Rightarrow> md_event \<Rightarrow> nat \<Rightarrow> nat \<Rightarrow> chunk_state \<Rightarrow> chunk_state" where
  "on_event content starts ev a b s =
     (case ev of
        Start_Heading lvl \<Rightarrow>
          (flush_state content starts s)
            \<lparr>st_in_heading := True, st_pending := Some (heading_level_to_usize lvl), st_title := []\<rparr>
      | End_Heading \<Rightarrow> end_heading s
      | Start_CodeBlock \<Rightarrow> s\<lparr>st_depth := st_depth s + 1, st_buf := extend_buf (st_buf s) a b\<rparr>
      | End_CodeBlock \<Rightarrow> s\<lparr>st_depth := st_depth s - 1, st_buf := extend_buf (st_buf s) a b\<rparr>
      | Text t \<Rightarrow>
          if st_in_heading s then s\<lparr>st_title := st_title s @ t\<rparr>
          else s\<lparr>st_buf := extend_buf (st_buf s) a b\<rparr>
      | Other_Event \<Rightarrow>
          if st_in_heading s then s else s\<lparr>st_buf := extend_buf (st_buf s) a b\<rparr>)"

definition size_flush :: "str \<Rightarrow> nat list \<Rightarrow> chunk_state \<Rightarrow> chunk_state" where
  "size_flush content starts s =
     (if st_depth s = 0 \<and> \<not> st_in_heading s \<and>
         (case st_buf s of (None, _) \<Rightarrow> False | (Some cs, ce) \<Rightarrow> ce - cs \<ge> MAX_CHUNK_BYTES)
      then flush_state content starts s else s)"

fun run_events :: "str \<Rightarrow> nat list \<Rightarrow> (md_event \<times> nat \<times> nat) list \<Rightarrow> chunk_state \<Rightarrow> chunk_state" where
  "run_events content starts [] s = s"
| "run_events content starts ((ev, a, b) # evs) s =
     run_events content starts evs (size_flush content starts (on_event content starts ev a b s))"

definition chunk_init :: chunk_state where
  "chunk_init = \<lparr>st_chunks = [], st_stack = [], st_heading = [], st_buf = (None, 0), st_in_heading = False,
     st_pending = None, st_title = [], st_depth = 0\<rparr>"

section \<open>Oversized chunks\<close>

fun split_on :: "char \<Rightarrow> str \<Rightarrow> str list" where
  "split_on c [] = [[]]"
| "split_on c (x # xs) = (if x = c then [] # split_on c xs else (x # hd (split_on c xs)) # tl (split_on c xs))"

definition starts_with :: "str \<Rightarrow> str \<Rightarrow> bool" where
  "starts_with s p \<longleftrightarrow> take (length p) s = p"

definition backticks :: str where
  "backticks = replicate 3 (CHR 0x60)"

fun cut_line :: "nat \<Rightarrow> bool \<Rightarrow> str \<Rightarrow> str list" where
  "cut_line 0 fenced rest = []"
| "cut_line (Suc fuel) fenced rest =
     (if rest = [] then []
      else let cut = floor_char_boundary rest (min MAX_CODE_CHUNK_BYTES (length rest)) in
        (take cut rest @ (if fenced then [lf] else [])) # cut_line fuel fenced (drop cut rest))"

text \<open>The packing loop: finished pieces, the open piece and its byte count.\<close>

fun pack_lines :: "bool \<Rightarrow> str list \<Rightarrow> str list \<Rightarrow> str \<Rightarrow> nat \<Rightarrow> str list" where
  "pack_lines fenced [] raw cur n = (if cur \<noteq> [] then raw @ [cur] else raw)"
| "pack_lines fenced (l # ls) raw cur n =
     (let add = length l + 1;
          (raw1, cur1, n1) =
            (if n + add > MAX_CODE_CHUNK_BYTES then (if cur \<noteq> [] then raw @ [cur] else raw, [], 0)
             else (raw, cur, n))
      in if add > MAX_CODE_CHUNK_BYTES
         then pack_lines fenced ls (raw1 @ cut_line (length l) fenced l) cur1 n1
         else pack_lines fenced ls raw1 (cur1 @ l @ [lf]) (n1 + add))"

fun number_pieces :: "str \<Rightarrow> nat \<Rightarrow> str list \<Rightarrow> chunk list" where
  "number_pieces heading next_line [] = []"
| "number_pieces heading next_line (p # ps) =
     (let body_lines = max (length (filter (\<lambda>c. c = lf) p)) 1;
          line_end = next_line + body_lines - 1
      in \<lparr>ck_text = p, ck_heading = heading, ck_line_start = next_line, ck_line_end = line_end\<rparr> #
         number_pieces heading (line_end + 1) ps)"

definition fence_parts :: "str \<Rightarrow> str option \<times> str option \<times> str list" where
  "fence_parts text =
     (let is_fenced = starts_with text backticks \<or> starts_with text ''~~~'';
          all_lines = split_on lf text;
          marker = (if starts_with text backticks then backticks
                    else if starts_with text ''~~'' then ''~~~'' else []);
          last_is_closer = is_fenced \<and> starts_with (trim_start (last all_lines)) marker \<and> length all_lines \<ge> 2
      in if last_is_closer then (Some (hd all_lines), Some (last all_lines), butlast (tl all_lines))
         else if is_fenced then (Some (hd all_lines), None, tl all_lines)
         else (None, None, all_lines))"

definition piece_text :: "str option \<Rightarrow> str option \<Rightarrow> str \<Rightarrow> str" where
  "piece_text opener closer piece =
     (case (opener, closer) of
        (Some op, Some cl) \<Rightarrow> op @ [lf] @ piece @ cl
      | (Some op, None) \<Rightarrow> op @ [lf] @ piece
      | _ \<Rightarrow> piece)"

definition split_oversized_code :: "chunk \<Rightarrow> chunk list" where
  "split_oversized_code c =
     (let (opener, closer, body) = fence_parts (ck_text c);
          raw = pack_lines (opener \<noteq> None) body [] [] 0;
          raw = (if raw = [] then [[]] else raw)
      in number_pieces (ck_heading c) (ck_line_start c) (map (piece_text opener closer) raw))"

definition chunk_markdown :: "(md_event \<times> nat \<times> nat) list \<Rightarrow> str \<Rightarrow> chunk list" where
  "chunk_markdown events content =
     (let starts = line_start_offsets content;
          s = flush_state content starts (run_events content starts events chunk_init)
      in concat (map (\<lambda>c. if length (ck_text c) > MAX_CODE_CHUNK_BYTES then split_oversized_code c else [c]) (st_chunks s)))"

end
