(* ===== verification/Chunker_Proofs.thy ===== *)
theory Chunker_Proofs
  imports Chunker
begin

text \<open>
  Lemmas and properties of the Markdown chunker: the line table, what trimming a pending range
  drops, the invariant of the event loop, and the pieces of an oversized chunk.
\<close>

section \<open>Lines\<close>

definition count_lf :: "str \<Rightarrow> nat" where
  "count_lf s = length (filter (\<lambda>c. c = lf) s)"

definition first_line :: "str \<Rightarrow> str" where
  "first_line s = takeWhile (\<lambda>c. c \<noteq> lf) s"

definition last_line :: "str \<Rightarrow> str" where
  "last_line s = rev (takeWhile (\<lambda>c. c \<noteq> lf) (rev s))"

lemma byte_to_line_sorted:
  "sorted_wrt (<) xs \<Longrightarrow> byte_to_line xs x = length (filter (\<lambda>y. y \<le> x) xs)"
proof (induction xs)
  case Nil
  then show ?case by (simp add: byte_to_line_def binary_search_def)
next
  case (Cons y ys)
  have above: "filter (\<lambda>z. z \<le> x) ys = []" if "x \<le> y"
    using Cons.prems that by (auto simp: filter_empty_conv)
  show ?case
  proof (cases "y < x")
    case True
    then have "byte_to_line (y # ys) x = Suc (byte_to_line ys x)"
      by (simp add: byte_to_line_def binary_search_def Let_def)
    with True Cons show ?thesis by simp
  next
    case False
    then show ?thesis using above
      by (cases "y = x") (simp_all add: byte_to_line_def binary_search_def Let_def)
  qed
qed

lemma line_start_offsets_sorted: "sorted_wrt (<) (line_start_offsets content)"
  by (auto simp: line_start_offsets_def sorted_wrt_map intro!: sorted_wrt_filter sorted_wrt_upt)

lemma byte_to_line_counts:
  assumes "off \<le> length content"
  shows "byte_to_line (line_start_offsets content) off = 1 + count_lf (take off content)"
proof -
  have "filter (\<lambda>i. i < off \<and> content ! i = lf) [0..<length content] = filter (\<lambda>i. content ! i = lf) [0..<off]"
  proof -
    have "[0..<length content] = [0..<off] @ [off..<length content]"
      using assms by (metis le0 le_add_diff_inverse upt_add_eq_append)
    then show ?thesis by (auto simp: filter_empty_conv intro!: filter_cong)
  qed
  moreover have "take off content = map (nth content) [0..<off]"
    using assms by (simp add: list_eq_iff_nth_eq)
  ultimately show ?thesis
    by (simp add: byte_to_line_sorted line_start_offsets_sorted)
       (simp add: line_start_offsets_def count_lf_def filter_map comp_def Suc_le_eq conj_commute)
qed

lemma sub_str_length [simp]: "b \<le> length s \<Longrightarrow> length (sub_str s a b) = b - a"
  by (simp add: sub_str_def)

lemma sub_str_nth: "i < b - a \<Longrightarrow> b \<le> length s \<Longrightarrow> sub_str s a b ! i = s ! (a + i)"
  by (simp add: sub_str_def)

lemma sub_str_append: "a \<le> m \<Longrightarrow> m \<le> b \<Longrightarrow> b \<le> length s \<Longrightarrow> sub_str s a b = sub_str s a m @ sub_str s m b"
  by (rule nth_equalityI) (auto simp: sub_str_nth nth_append add.commute)

lemma sub_str_no_lf:
  assumes "\<forall>p. a \<le> p \<and> p < e \<longrightarrow> s ! p \<noteq> lf" "e \<le> length s"
  shows "lf \<notin> set (sub_str s a e)"
  using assms by (auto simp: in_set_conv_nth sub_str_nth)

lemma takeWhile_no_lf: "lf \<notin> set xs \<Longrightarrow> takeWhile (\<lambda>c. c \<noteq> lf) xs = xs"
  by (induction xs) auto

lemma takeWhile_lf: "lf \<notin> set xs \<Longrightarrow> takeWhile (\<lambda>c. c \<noteq> lf) (xs @ lf # ys) = xs"
  by (induction xs) auto

lemma first_line_sub:
  assumes "a \<le> e" "e \<le> b" "b \<le> length s" "\<forall>p. a \<le> p \<and> p < e \<longrightarrow> s ! p \<noteq> lf" "e = b \<or> s ! e = lf"
  shows "first_line (sub_str s a b) = sub_str s a e"
proof (cases "e = b")
  case True
  then show ?thesis using sub_str_no_lf [of a e s] assms
    by (simp add: first_line_def takeWhile_no_lf)
next
  case False
  then have "sub_str s e b = lf # sub_str s (Suc e) b"
  proof -
    have "e < b" "e < length s" using assms False by auto
    then show ?thesis using assms(5) False
      by (simp add: sub_str_def Cons_nth_drop_Suc [symmetric] take_Cons' del: drop_Suc)
  qed
  then have "sub_str s a b = sub_str s a e @ lf # sub_str s (Suc e) b"
    using sub_str_append [OF assms(1-3)] by simp
  then show ?thesis using sub_str_no_lf [of a e s] assms
    by (simp add: first_line_def takeWhile_lf)
qed

lemma last_line_sub:
  assumes "a \<le> l" "l \<le> b" "b \<le> length s" "\<forall>p. l \<le> p \<and> p < b \<longrightarrow> s ! p \<noteq> lf"
    "l = a \<or> (a < l \<and> s ! (l - 1) = lf)"
  shows "last_line (sub_str s a b) = sub_str s l b"
proof (cases "l = a")
  case True
  then show ?thesis using sub_str_no_lf [of l b s] assms
    by (simp add: last_line_def takeWhile_no_lf)
next
  case False
  with assms have "sub_str s a l = sub_str s a (l - 1) @ [lf]"
    by (subst sub_str_append [of a "l - 1" l]) (auto simp: sub_str_def take_Suc_conv_app_nth)
  then have "sub_str s a b = (sub_str s a (l - 1) @ [lf]) @ sub_str s l b"
    using sub_str_append [OF assms(1-3)] by simp
  then show ?thesis using sub_str_no_lf [of l b s] assms
    by (simp add: last_line_def takeWhile_lf)
qed

lemma count_lf_sub: "a \<le> b \<Longrightarrow> b \<le> length s \<Longrightarrow> count_lf (take b s) = count_lf (take a s) + count_lf (sub_str s a b)"
  using sub_str_append [of 0 a b s] by (simp add: sub_str_def count_lf_def)

section \<open>Slices\<close>

text \<open>What the proofs use of the encoding: a byte after a newline starts a character, and no
  character has more than three continuation bytes.\<close>

definition short_chars :: "str \<Rightarrow> bool" where
  "short_chars s \<longleftrightarrow> (\<forall>i < length s. i + 4 \<le> length s \<longrightarrow> (\<exists>j \<in> set [i..<i + 4]. \<not> cont_byte (s ! j)))"

definition utf8_shape :: "str \<Rightarrow> bool" where
  "utf8_shape s \<longleftrightarrow> (\<forall>i < length s. s ! i = lf \<longrightarrow> is_char_boundary s (Suc i)) \<and> short_chars s"

lemma cont_byte_lf [simp]: "\<not> cont_byte lf"
  by (simp add: cont_byte_def lf_def)

lemma boundary_lf: "i < length s \<Longrightarrow> s ! i = lf \<Longrightarrow> is_char_boundary s i"
  by (simp add: is_char_boundary_def)

lemma boundary_le: "is_char_boundary s i \<Longrightarrow> i \<le> length s"
  by (auto simp: is_char_boundary_def)

lemma floor_at_boundary: "is_char_boundary s i \<Longrightarrow> floor_char_boundary s i = i"
  by (cases i) (auto dest: boundary_le)

lemma ceil_at_boundary: "is_char_boundary s i \<Longrightarrow> ceil_char_boundary s i = i"
  by (auto simp: ceil_char_boundary_def upt_conv_Cons dest: boundary_le)

lemma safe_slice_boundary:
  assumes "is_char_boundary s a" "is_char_boundary s b" "a < b"
  shows "safe_slice s a b = sub_str s a b"
  using assms boundary_le [of s a] boundary_le [of s b]
  by (simp add: safe_slice_def min_absorb1 floor_at_boundary ceil_at_boundary)

lemma blank_iff:
  assumes "is_char_boundary s a" "is_char_boundary s b" "a \<le> b"
  shows "blank s a b \<longleftrightarrow> trim (sub_str s a b) = []"
  using assms by (cases "a = b") (auto simp: blank_def safe_slice_boundary, auto simp: safe_slice_def sub_str_def)

text \<open>A byte that trimming may drop: a newline, or a byte of a slice of white space.\<close>

definition droppable :: "str \<Rightarrow> nat \<Rightarrow> bool" where
  "droppable s p \<longleftrightarrow> s ! p = lf \<or>
     (\<exists>u \<le> p. \<exists>v \<le> length s. p < v \<and> trim (sub_str s u v) = [])"

lemma droppable_blank:
  "blank s a b \<Longrightarrow> is_char_boundary s a \<Longrightarrow> is_char_boundary s b \<Longrightarrow> a \<le> p \<Longrightarrow> p < b \<Longrightarrow> droppable s p"
  using blank_iff [of s a b] boundary_le [of s b] by (auto simp: droppable_def)

lemma find_lf_SomeD:
  "find_lf s a b = Some i \<Longrightarrow> a \<le> i \<and> i < b \<and> s ! i = lf \<and> (\<forall>p. a \<le> p \<and> p < i \<longrightarrow> s ! p \<noteq> lf)"
  unfolding find_lf_def find_Some_iff
  by (auto, metis add_diff_inverse_nat diff_less_mono leD nat_add_left_cancel_less)

lemma find_lf_NoneD: "find_lf s a b = None \<Longrightarrow> \<forall>p. a \<le> p \<and> p < b \<longrightarrow> s ! p \<noteq> lf"
  by (auto simp: find_lf_def find_None_iff)

lemma rfind_lf_SomeD:
  assumes "rfind_lf s a b = Some i"
  shows "a \<le> i \<and> i < b \<and> s ! i = lf \<and> (\<forall>p. i < p \<and> p < b \<longrightarrow> s ! p \<noteq> lf)"
proof -
  obtain k where k: "k < b - a" "i = b - Suc k" "s ! i = lf" "\<forall>j < k. s ! (b - Suc j) \<noteq> lf"
    using assms by (auto simp: rfind_lf_def find_Some_iff rev_nth)
  have "s ! p \<noteq> lf" if "i < p" "p < b" for p
  proof -
    have "b - Suc (b - Suc p) = p" "b - Suc p < k" using that k by auto
    then show ?thesis using k(4) by metis
  qed
  with k rfind_lf_bounds [OF assms] show ?thesis by auto
qed

lemma rfind_lf_NoneD: "rfind_lf s a b = None \<Longrightarrow> \<forall>p. a \<le> p \<and> p < b \<longrightarrow> s ! p \<noteq> lf"
  by (auto simp: rfind_lf_def find_None_iff)

section \<open>Trimming a pending range\<close>

lemma boundary_after_lf: "utf8_shape s \<Longrightarrow> i < length s \<Longrightarrow> s ! i = lf \<Longrightarrow> is_char_boundary s (Suc i)"
  by (simp add: utf8_shape_def)

definition line_end_in :: "str \<Rightarrow> nat \<Rightarrow> nat \<Rightarrow> nat" where
  "line_end_in s a b = (case find_lf s a b of None \<Rightarrow> b | Some i \<Rightarrow> i)"

lemma line_end_in_props:
  assumes "a < b" "is_char_boundary s b"
  shows "a \<le> line_end_in s a b" "line_end_in s a b \<le> b" "is_char_boundary s (line_end_in s a b)"
    "line_end_in s a b = b \<or> s ! line_end_in s a b = lf"
    "\<forall>p. a \<le> p \<and> p < line_end_in s a b \<longrightarrow> s ! p \<noteq> lf"
  using assms boundary_le [OF assms(2)] find_lf_SomeD [of s a b] find_lf_NoneD [of s a b] boundary_lf [of _ s]
  by (auto simp: line_end_in_def split: option.splits)

lemma trim_leading_spec:
  assumes "utf8_shape s" "is_char_boundary s a" "is_char_boundary s b"
  shows "a \<le> trim_leading s a b \<and>
     (\<forall>p. a \<le> p \<and> p < trim_leading s a b \<and> p < b \<longrightarrow> droppable s p) \<and>
     (trim_leading s a b < b \<longrightarrow>
        is_char_boundary s (trim_leading s a b) \<and>
        \<not> blank s (trim_leading s a b) (line_end_in s (trim_leading s a b) b))"
  using assms
proof (induction s a b rule: trim_leading.induct)
  case (1 s a b)
  show ?case
  proof (cases "a < b \<and> blank s a (line_end_in s a b)")
    case False
    then have "trim_leading s a b = a"
      by (subst trim_leading.simps) (auto simp: line_end_in_def Let_def)
    with False "1.prems" show ?thesis by auto
  next
    case True
    define e where "e = line_end_in s a b"
    have step: "trim_leading s a b = trim_leading s (e + 1) b"
      using True by (subst trim_leading.simps) (simp add: e_def line_end_in_def Let_def)
    have e: "a \<le> e" "e \<le> b" "is_char_boundary s e" "e = b \<or> s ! e = lf"
      using line_end_in_props [of a b s] True "1.prems" by (auto simp: e_def)
    have drop: "droppable s p" if "a \<le> p" "p \<le> e" "p < b" for p
      using that True e "1.prems" droppable_blank [of s a e p] by (cases "p = e") (auto simp: e_def [symmetric] droppable_def)
    show ?thesis
    proof (cases "e = b")
      case True
      have "trim_leading s (e + 1) b = e + 1"
        using True by (subst trim_leading.simps) simp
      with step drop e True show ?thesis by auto
    next
      case False
      have "is_char_boundary s (e + 1)"
        using e False "1.prems" boundary_le [of s b] boundary_after_lf [of s e] by auto
      then have "(e + 1) \<le> trim_leading s (e + 1) b \<and>
         (\<forall>p. e + 1 \<le> p \<and> p < trim_leading s (e + 1) b \<and> p < b \<longrightarrow> droppable s p) \<and>
         (trim_leading s (e + 1) b < b \<longrightarrow> is_char_boundary s (trim_leading s (e + 1) b) \<and>
            \<not> blank s (trim_leading s (e + 1) b) (line_end_in s (trim_leading s (e + 1) b) b))"
        using "1.IH" [of e] True "1.prems" by (simp add: e_def line_end_in_def)
      with step drop e show ?thesis
        by (metis Suc_eq_plus1 Suc_leD le_trans not_less_eq_eq)
    qed
  qed
qed

definition trailing_ok :: "str \<Rightarrow> nat \<Rightarrow> nat \<Rightarrow> nat \<Rightarrow> bool" where
  "trailing_ok s a b b' \<longleftrightarrow>
     b' \<le> b \<and> is_char_boundary s b' \<and> (b' = b \<or> s ! b' = lf) \<and>
     (\<forall>p. a \<le> p \<and> b' \<le> p \<and> p < b \<longrightarrow> droppable s p) \<and>
     (a < b' \<longrightarrow> trim (last_line (sub_str s a b')) \<noteq> [] \<and> s ! (b' - 1) \<noteq> lf)"

lemma trim_trailing_spec:
  assumes "utf8_shape s" "is_char_boundary s a" "is_char_boundary s b"
  shows "case trim_trailing s a b of
           None \<Rightarrow> (\<forall>p. a \<le> p \<and> p < b \<longrightarrow> droppable s p)
         | Some b' \<Rightarrow> trailing_ok s a b b'"
  using assms
proof (induction s a b rule: trim_trailing.induct)
  case (1 s a b)
  note bl = boundary_le [OF "1.prems"(3)]
  consider (empty) "\<not> a < b" | (nl) i where "a < b" "rfind_lf s a b = Some i" | (one) "a < b" "rfind_lf s a b = None"
    by (cases "rfind_lf s a b") auto
  then show ?case
  proof cases
    case empty
    then show ?thesis using "1.prems" by (subst trim_trailing.simps) (auto simp: trailing_ok_def)
  next
    case one
    note no = rfind_lf_NoneD [OF one(2)]
    have "last_line (sub_str s a b) = sub_str s a b"
      using last_line_sub [of a a b s] no one bl by auto
    moreover have "s ! (b - 1) \<noteq> lf" using no one by auto
    ultimately show ?thesis using one "1.prems" blank_iff [of s a b] droppable_blank [of s a b]
      by (subst trim_trailing.simps) (auto simp: trailing_ok_def)
  next
    case nl
    note i = rfind_lf_SomeD [OF nl(2)]
    have bi: "is_char_boundary s i" "is_char_boundary s (Suc i)"
      using i bl "1.prems" boundary_after_lf [of s i] boundary_lf [of i s] by auto
    show ?thesis
    proof (cases "blank s (i + 1) b")
      case True
      then have step: "trim_trailing s a b = trim_trailing s a i"
        using nl by (subst trim_trailing.simps) simp
      have drop: "droppable s p" if "i \<le> p" "p < b" for p
        using that True bi i "1.prems" droppable_blank [of s "Suc i" b p] by (cases "p = i") (auto simp: droppable_def)
      have IH: "case trim_trailing s a i of None \<Rightarrow> (\<forall>p. a \<le> p \<and> p < i \<longrightarrow> droppable s p)
                | Some b' \<Rightarrow> trailing_ok s a i b'"
        using "1.IH" nl True bi "1.prems" by simp
      show ?thesis
      proof (cases "trim_trailing s a i")
        case None
        with IH step drop show ?thesis by (auto simp: not_less [symmetric])
      next
        case (Some b')
        with IH have "trailing_ok s a i b'" by simp
        then have "trailing_ok s a b b'"
          using i drop by (auto simp: trailing_ok_def not_less [symmetric])
        with Some step show ?thesis by simp
      qed
    next
      case False
      then have ll: "Suc i < b" "trim (sub_str s (Suc i) b) \<noteq> []"
        using blank_iff [of s "Suc i" b] bi i "1.prems" by (cases "Suc i = b"; simp add: sub_str_def)+
      then have "last_line (sub_str s a b) = sub_str s (Suc i) b"
        using last_line_sub [of a "Suc i" b s] i bl by auto
      moreover have "s ! (b - 1) \<noteq> lf" using i ll by auto
      ultimately show ?thesis using nl False ll "1.prems"
        by (subst trim_trailing.simps) (auto simp: trailing_ok_def)
    qed
  qed
qed

definition range_ok :: "str \<Rightarrow> nat \<Rightarrow> nat \<Rightarrow> bool" where
  "range_ok s a b \<longleftrightarrow> a < b \<and> is_char_boundary s a \<and> is_char_boundary s b \<and> s ! (b - 1) \<noteq> lf \<and>
     trim (first_line (sub_str s a b)) \<noteq> [] \<and> trim (last_line (sub_str s a b)) \<noteq> []"

lemma flush_range_spec:
  assumes "utf8_shape s" "is_char_boundary s a0" "is_char_boundary s b0"
  shows "case flush_range s a0 b0 of
           None \<Rightarrow> (\<forall>p. a0 \<le> p \<and> p < b0 \<longrightarrow> droppable s p)
         | Some (a, b) \<Rightarrow> range_ok s a b \<and> (\<forall>p. a0 \<le> p \<and> p < b0 \<longrightarrow> droppable s p \<or> (a \<le> p \<and> p < b))"
proof -
  define a where "a = trim_leading s a0 b0"
  note lead = trim_leading_spec [OF assms, folded a_def]
  consider (empty) "\<not> a0 < b0" | (all) "a0 < b0" "b0 \<le> a" | (rest) "a0 < b0" "a < b0" by linarith
  then show ?thesis
  proof cases
    case empty
    then show ?thesis by (auto simp: flush_range_def)
  next
    case all
    then have "trim_trailing s a b0 = Some b0" by (subst trim_trailing.simps) simp
    with all lead show ?thesis by (auto simp: flush_range_def Let_def a_def [symmetric])
  next
    case rest
    then have ba: "is_char_boundary s a" and fl: "\<not> blank s a (line_end_in s a b0)" using lead by auto
    note trail = trim_trailing_spec [OF assms(1) ba assms(3)]
    show ?thesis
    proof (cases "trim_trailing s a b0")
      case None
      with trail lead rest show ?thesis
        by (auto simp: flush_range_def Let_def a_def [symmetric]) (meson not_le_imp_less)
    next
      case (Some b)
      with trail have t: "trailing_ok s a b0 b" by simp
      note le = line_end_in_props [OF rest(2) assms(3)]
      have "range_ok s a b" if "a < b"
      proof -
        have "line_end_in s a b0 \<le> b"
          using le t that by (cases "b = b0") (auto simp: trailing_ok_def not_less [symmetric])
        moreover have "line_end_in s a b0 = b \<or> s ! line_end_in s a b0 = lf"
          using le t calculation by (auto simp: trailing_ok_def)
        ultimately have "first_line (sub_str s a b) = sub_str s a (line_end_in s a b0)"
          using first_line_sub [of a "line_end_in s a b0" b s] le t boundary_le [OF assms(3)]
          by (auto simp: trailing_ok_def)
        then show ?thesis using that t ba fl le blank_iff [of s a "line_end_in s a b0"]
          by (auto simp: range_ok_def trailing_ok_def)
      qed
      moreover have "droppable s p \<or> (a \<le> p \<and> p < b)" if "a0 \<le> p" "p < b0" for p
        using that lead t by (auto simp: trailing_ok_def not_less [symmetric])
      ultimately show ?thesis using Some rest
        by (cases "a < b") (auto simp: flush_range_def Let_def a_def [symmetric] range_ok_def, fastforce)
    qed
  qed
qed

section \<open>The event loop\<close>

text \<open>The chunk of a byte range, and the byte ranges that the loop takes into a chunk.\<close>

definition range_chunk :: "str \<Rightarrow> str \<times> nat \<times> nat \<Rightarrow> chunk" where
  "range_chunk s r = (case r of (h, a, b) \<Rightarrow>
     \<lparr>ck_text = sub_str s a b, ck_heading = h, ck_line_start = 1 + count_lf (take a s),
      ck_line_end = 1 + count_lf (take a s) + count_lf (sub_str s a b)\<rparr>)"

fun body_ranges :: "bool \<Rightarrow> (md_event \<times> nat \<times> nat) list \<Rightarrow> (nat \<times> nat) list" where
  "body_ranges h [] = []"
| "body_ranges h ((ev, a, b) # evs) =
     (case ev of
        Start_Heading _ \<Rightarrow> body_ranges True evs
      | End_Heading \<Rightarrow> body_ranges False evs
      | Start_CodeBlock \<Rightarrow> (a, b) # body_ranges h evs
      | End_CodeBlock \<Rightarrow> (a, b) # body_ranges h evs
      | _ \<Rightarrow> if h then body_ranges h evs else (a, b) # body_ranges h evs)"

definition in_buf :: "nat option \<times> nat \<Rightarrow> nat \<Rightarrow> bool" where
  "in_buf buf p \<longleftrightarrow> (case buf of (None, _) \<Rightarrow> False | (Some cs, ce) \<Rightarrow> cs \<le> p \<and> p < ce)"

definition buf_ok :: "str \<Rightarrow> nat option \<times> nat \<Rightarrow> bool" where
  "buf_ok s buf \<longleftrightarrow> (case buf of (None, _) \<Rightarrow> True | (Some cs, ce) \<Rightarrow> is_char_boundary s cs \<and> is_char_boundary s ce)"

definition covered :: "str \<Rightarrow> (str \<times> nat \<times> nat) list \<Rightarrow> nat \<Rightarrow> bool" where
  "covered s rs p \<longleftrightarrow> droppable s p \<or> (\<exists>(h, a, b) \<in> set rs. a \<le> p \<and> p < b)"

definition loop_inv :: "str \<Rightarrow> nat set \<Rightarrow> (str \<times> nat \<times> nat) list \<Rightarrow> chunk_state \<Rightarrow> bool" where
  "loop_inv s P rs st \<longleftrightarrow>
     st_chunks st = map (range_chunk s) rs \<and> (\<forall>(h, a, b) \<in> set rs. range_ok s a b) \<and>
     buf_ok s (st_buf st) \<and> (\<forall>p \<in> P. covered s rs p \<or> in_buf (st_buf st) p)"

lemma range_chunk_flushed:
  assumes "range_ok s a b"
  shows "\<lparr>ck_text = safe_slice s a b, ck_heading = h, ck_line_start = byte_to_line (line_start_offsets s) a,
          ck_line_end = byte_to_line (line_start_offsets s) (max (b - 1) a)\<rparr> = range_chunk s (h, a, b)"
proof -
  have r: "a < b" "b \<le> length s" "a \<le> b - 1" "s ! (b - 1) \<noteq> lf" "is_char_boundary s a" "is_char_boundary s b"
    using assms boundary_le [of s b] by (auto simp: range_ok_def)
  then have "take b s = take (b - 1) s @ [s ! (b - 1)]"
    by (cases b) (auto simp: take_Suc_conv_app_nth)
  then have "count_lf (take (b - 1) s) = count_lf (take b s)"
    using r by (simp add: count_lf_def)
  then show ?thesis using r count_lf_sub [of a b s]
    by (simp add: range_chunk_def safe_slice_boundary byte_to_line_counts max_absorb1)
qed

lemma flush_state_inv:
  assumes "loop_inv s P rs st" "utf8_shape s"
  shows "\<exists>rs'. loop_inv s P rs' (flush_state s (line_start_offsets s) st) \<and>
           fst (st_buf (flush_state s (line_start_offsets s) st)) = None"
proof (cases "st_buf st")
  case (Pair c ce)
  show ?thesis
  proof (cases c)
    case None
    with Pair assms show ?thesis
      by (auto simp: loop_inv_def flush_state_def flush_buf_def in_buf_def buf_ok_def)
  next
    case (Some cs)
    then have bo: "is_char_boundary s cs" "is_char_boundary s ce"
      using assms Pair by (auto simp: loop_inv_def buf_ok_def)
    note fr = flush_range_spec [OF assms(2) bo]
    show ?thesis
    proof (cases "flush_range s cs ce")
      case None
      with fr Some Pair assms show ?thesis
        by (intro exI [of _ rs]) (auto simp: loop_inv_def flush_state_def flush_buf_def in_buf_def buf_ok_def covered_def)
    next
      case (Some r)
      obtain a b where r: "r = (a, b)" by (cases r)
      have ok: "range_ok s a b" using fr Some r by simp
      have "loop_inv s P (rs @ [(st_heading st, a, b)]) (flush_state s (line_start_offsets s) st)"
        using fr Some r \<open>c = Some cs\<close> Pair assms ok range_chunk_flushed [OF ok, of "st_heading st"]
        by (auto simp: loop_inv_def flush_state_def flush_buf_def in_buf_def buf_ok_def covered_def)
      then show ?thesis using Some r \<open>c = Some cs\<close> Pair
        by (auto simp: flush_state_def flush_buf_def)
    qed
  qed
qed

lemma extend_buf_inv:
  assumes "loop_inv s P rs st" "is_char_boundary s a" "is_char_boundary s b"
  shows "loop_inv s (P \<union> {a..<b}) rs (st\<lparr>st_buf := extend_buf (st_buf st) a b\<rparr>)"
  using assms
  by (cases "st_buf st"; cases "fst (st_buf st)")
     (auto simp: loop_inv_def extend_buf_def in_buf_def buf_ok_def)

lemma flush_state_fields [simp]:
  "st_in_heading (flush_state s starts st) = st_in_heading st"
  by (simp add: flush_state_def split: prod.splits)

lemma end_heading_fields [simp]:
  "st_chunks (end_heading st) = st_chunks st" "st_buf (end_heading st) = st_buf st"
  "st_in_heading (end_heading st) = False"
  by (auto simp: end_heading_def Let_def split: option.splits)

text \<open>One round of the loop: the event, then the flush on size.\<close>

definition event_bytes :: "bool \<Rightarrow> md_event \<Rightarrow> nat \<Rightarrow> nat \<Rightarrow> nat set" where
  "event_bytes h ev a b = (\<Union>(a, b) \<in> set (body_ranges h [(ev, a, b)]). {a..<b})"

lemma on_event_inv:
  assumes "loop_inv s P rs st" "utf8_shape s" "is_char_boundary s a" "is_char_boundary s b"
  shows "\<exists>rs'. loop_inv s (P \<union> event_bytes (st_in_heading st) ev a b) rs'
           (on_event s (line_start_offsets s) ev a b st)"
proof (cases ev)
  case (Start_Heading lvl)
  then show ?thesis using flush_state_inv [OF assms(1,2)]
    by (auto simp: on_event_def event_bytes_def loop_inv_def)
next
  case End_Heading
  then show ?thesis using assms
    by (auto simp: on_event_def event_bytes_def loop_inv_def)
next
  case Start_CodeBlock
  then show ?thesis using extend_buf_inv [OF assms(1,3,4)]
    by (auto simp: on_event_def event_bytes_def loop_inv_def)
next
  case End_CodeBlock
  then show ?thesis using extend_buf_inv [OF assms(1,3,4)]
    by (auto simp: on_event_def event_bytes_def loop_inv_def)
next
  case (Text t)
  then show ?thesis using extend_buf_inv [OF assms(1,3,4)] assms(1)
    by (auto simp: on_event_def event_bytes_def loop_inv_def)
next
  case Other_Event
  then show ?thesis using extend_buf_inv [OF assms(1,3,4)] assms(1)
    by (auto simp: on_event_def event_bytes_def loop_inv_def)
qed

lemma size_flush_inv:
  assumes "loop_inv s P rs st" "utf8_shape s"
  shows "\<exists>rs'. loop_inv s P rs' (size_flush s (line_start_offsets s) st)"
  using flush_state_inv [OF assms] assms(1) by (auto simp: size_flush_def)

lemma on_event_heading:
  "st_in_heading (size_flush s starts (on_event s starts ev a b st)) =
     (case ev of Start_Heading _ \<Rightarrow> True | End_Heading \<Rightarrow> False | _ \<Rightarrow> st_in_heading st)"
  by (simp add: size_flush_def on_event_def split: md_event.splits)

lemma body_ranges_Cons:
  "(\<Union>(a, b) \<in> set (body_ranges h ((ev, a, b) # evs)). {a..<b}) =
     event_bytes h ev a b \<union>
     (\<Union>(a, b) \<in> set (body_ranges (case ev of Start_Heading _ \<Rightarrow> True | End_Heading \<Rightarrow> False | _ \<Rightarrow> h) evs). {a..<b})"
  by (auto simp: event_bytes_def split: md_event.splits if_splits)

lemma run_events_inv:
  assumes "loop_inv s P rs st" "utf8_shape s" "\<forall>(ev, a, b) \<in> set evs. is_char_boundary s a \<and> is_char_boundary s b"
  shows "\<exists>rs'. loop_inv s (P \<union> (\<Union>(a, b) \<in> set (body_ranges (st_in_heading st) evs). {a..<b})) rs'
           (run_events s (line_start_offsets s) evs st)"
  using assms
proof (induction evs arbitrary: P rs st)
  case Nil
  then show ?case by auto
next
  case (Cons e evs)
  obtain ev a b where e: "e = (ev, a, b)" by (cases e)
  obtain rs1 where "loop_inv s (P \<union> event_bytes (st_in_heading st) ev a b) rs1 (on_event s (line_start_offsets s) ev a b st)"
    using on_event_inv [OF Cons.prems(1,2), of a b ev] Cons.prems(3) e by auto
  then obtain rs2 where r2: "loop_inv s (P \<union> event_bytes (st_in_heading st) ev a b) rs2
      (size_flush s (line_start_offsets s) (on_event s (line_start_offsets s) ev a b st))"
    using size_flush_inv Cons.prems(2) by blast
  have "\<forall>(ev, a, b) \<in> set evs. is_char_boundary s a \<and> is_char_boundary s b" using Cons.prems(3) by simp
  from Cons.IH [OF r2 Cons.prems(2) this] show ?case
    unfolding e body_ranges_Cons run_events.simps on_event_heading by (simp add: Un_assoc)
qed

lemma chunk_init_inv: "loop_inv s {} [] chunk_init"
  by (simp add: loop_inv_def chunk_init_def buf_ok_def)

section \<open>Oversized chunks\<close>

lemma short_chars_infix: "short_chars (x @ l @ y) \<Longrightarrow> short_chars l"
  unfolding short_chars_def
proof (intro allI impI)
  fix i assume s: "\<forall>i < length (x @ l @ y). i + 4 \<le> length (x @ l @ y) \<longrightarrow>
      (\<exists>j \<in> set [i..<i + 4]. \<not> cont_byte ((x @ l @ y) ! j))" and i: "i < length l" "i + 4 \<le> length l"
  then obtain j where j: "j \<in> set [length x + i..<length x + i + 4]" "\<not> cont_byte ((x @ l @ y) ! j)"
    by (auto dest!: spec [of _ "length x + i"])
  then have "\<not> cont_byte (l ! (j - length x))" "j - length x \<in> set [i..<i + 4]"
    using i by (auto simp: nth_append less_diff_conv2 split: if_splits)
  then show "\<exists>j \<in> set [i..<i + 4]. \<not> cont_byte (l ! j)" by blast
qed

lemma short_chars_sub_str: "short_chars s \<Longrightarrow> short_chars (sub_str s a b)"
  by (metis append_take_drop_id short_chars_infix sub_str_def)

lemma floor_ge: "j \<le> n \<Longrightarrow> is_char_boundary s j \<Longrightarrow> j \<le> floor_char_boundary s n"
  by (induction n) (auto simp: le_Suc_eq dest: boundary_le)

lemma floor_le: "n \<le> length s \<Longrightarrow> floor_char_boundary s n \<le> n"
  by (induction n) auto

lemma cut_positive:
  assumes "short_chars s" "s \<noteq> []" "4 \<le> cap"
  shows "0 < floor_char_boundary s (min cap (length s))"
proof (cases "cap < length s")
  case False
  then have "is_char_boundary s (min cap (length s))" by (simp add: is_char_boundary_def)
  then show ?thesis using floor_at_boundary [of s "min cap (length s)"] assms by simp
next
  case True
  then have "cap - 3 < length s" "cap - 3 + 4 \<le> length s" using assms(3) by auto
  with assms(1) obtain j where "j \<in> set [cap - 3..<cap - 3 + 4]" "\<not> cont_byte (s ! j)"
    unfolding short_chars_def by blast
  then have "0 < j" "j \<le> cap" "is_char_boundary s j"
    using True assms(3) by (auto simp: is_char_boundary_def)
  then show ?thesis using floor_ge [of j cap s] True by simp
qed

definition nl_pad :: "bool \<Rightarrow> nat" where
  "nl_pad fenced = (if fenced then 1 else 0)"

lemma cut_line_spec:
  assumes "length l \<le> fuel" "short_chars l"
  shows "(\<not> fenced \<longrightarrow> concat (cut_line fuel fenced l) = l) \<and>
    filter (\<lambda>c. c \<noteq> lf) (concat (cut_line fuel fenced l)) = filter (\<lambda>c. c \<noteq> lf) l \<and>
    (\<forall>p \<in> set (cut_line fuel fenced l). p \<noteq> [] \<and> length p \<le> MAX_CODE_CHUNK_BYTES + nl_pad fenced)"
  using assms
proof (induction fuel fenced l rule: cut_line.induct)
  case (2 fuel fenced l)
  show ?case
  proof (cases "l = []")
    case False
    define cut where "cut = floor_char_boundary l (min MAX_CODE_CHUNK_BYTES (length l))"
    have cut: "0 < cut" "cut \<le> MAX_CODE_CHUNK_BYTES" "cut \<le> length l"
      using cut_positive [OF "2.prems"(2) False, of MAX_CODE_CHUNK_BYTES] floor_le [of "min MAX_CODE_CHUNK_BYTES (length l)" l]
      by (auto simp: cut_def MAX_CODE_CHUNK_BYTES_def MAX_CHUNK_BYTES_def)
    have "short_chars (drop cut l)"
      using short_chars_infix [of "take cut l" "drop cut l" "[]"] "2.prems" by simp
    then have IH: "(\<not> fenced \<longrightarrow> concat (cut_line fuel fenced (drop cut l)) = drop cut l) \<and>
      filter (\<lambda>c. c \<noteq> lf) (concat (cut_line fuel fenced (drop cut l))) = filter (\<lambda>c. c \<noteq> lf) (drop cut l) \<and>
      (\<forall>p \<in> set (cut_line fuel fenced (drop cut l)). p \<noteq> [] \<and> length p \<le> MAX_CODE_CHUNK_BYTES + nl_pad fenced)"
      using "2.IH" [OF False cut_def] cut "2.prems" by auto
    have "filter (\<lambda>c. c \<noteq> lf) (take cut l) @ filter (\<lambda>c. c \<noteq> lf) (drop cut l) = filter (\<lambda>c. c \<noteq> lf) l"
      by (simp flip: filter_append)
    with IH False cut show ?thesis
      by (auto simp: Let_def cut_def [symmetric] nl_pad_def)
  qed simp
qed simp

definition emit_line :: "bool \<Rightarrow> str \<Rightarrow> str" where
  "emit_line fenced l = (if length l + 1 > MAX_CODE_CHUNK_BYTES then concat (cut_line (length l) fenced l) else l @ [lf])"

text \<open>The step of the packing loop that closes the open piece.\<close>

definition pack_roll :: "str \<Rightarrow> str list \<Rightarrow> str \<Rightarrow> nat \<Rightarrow> str list \<times> str \<times> nat" where
  "pack_roll l raw cur n =
     (if n + (length l + 1) > MAX_CODE_CHUNK_BYTES then (if cur \<noteq> [] then raw @ [cur] else raw, [], 0)
      else (raw, cur, n))"

lemma pack_lines_step:
  assumes "pack_roll l raw cur n = (raw1, cur1, n1)"
  shows "pack_lines fenced (l # ls) raw cur n =
    (if length l + 1 > MAX_CODE_CHUNK_BYTES
     then pack_lines fenced ls (raw1 @ cut_line (length l) fenced l) cur1 n1
     else pack_lines fenced ls raw1 (cur1 @ l @ [lf]) (n1 + (length l + 1)))"
  using assms by (simp add: pack_roll_def Let_def split: if_splits)

lemma pack_roll_props:
  assumes "pack_roll l raw cur n = (raw1, cur1, n1)" "n = length cur" "length cur \<le> MAX_CODE_CHUNK_BYTES"
  shows "concat raw1 @ cur1 = concat raw @ cur" "n1 = length cur1" "length cur1 \<le> MAX_CODE_CHUNK_BYTES"
    "set raw1 \<subseteq> set raw \<union> {cur}" "cur \<in> set raw1 \<Longrightarrow> cur \<in> set raw \<or> cur \<noteq> []"
    "length l + 1 \<le> MAX_CODE_CHUNK_BYTES \<Longrightarrow> n1 + (length l + 1) \<le> MAX_CODE_CHUNK_BYTES"
  using assms by (auto simp: pack_roll_def split: if_splits)

lemma pack_lines_spec:
  assumes "n = length cur" "length cur \<le> MAX_CODE_CHUNK_BYTES" "\<forall>l \<in> set ls. short_chars l"
    "\<forall>p \<in> set raw. p \<noteq> [] \<and> length p \<le> MAX_CODE_CHUNK_BYTES + nl_pad fenced"
  shows "concat (pack_lines fenced ls raw cur n) = concat raw @ cur @ concat (map (emit_line fenced) ls) \<and>
    (\<forall>p \<in> set (pack_lines fenced ls raw cur n). p \<noteq> [] \<and> length p \<le> MAX_CODE_CHUNK_BYTES + nl_pad fenced)"
  using assms
proof (induction ls arbitrary: raw cur n)
  case Nil
  then show ?case by auto
next
  case (Cons l ls)
  obtain raw1 cur1 n1 where roll: "pack_roll l raw cur n = (raw1, cur1, n1)" by (cases "pack_roll l raw cur n")
  note inv = pack_roll_props [OF roll Cons.prems(1,2)]
  have raw1: "\<forall>p \<in> set raw1. p \<noteq> [] \<and> length p \<le> MAX_CODE_CHUNK_BYTES + nl_pad fenced"
    using inv(4,5) Cons.prems(2,4) by fastforce
  have ls: "\<forall>l \<in> set ls. short_chars l" using Cons.prems(3) by simp
  have cut: "\<forall>p \<in> set (cut_line (length l) fenced l). p \<noteq> [] \<and> length p \<le> MAX_CODE_CHUNK_BYTES + nl_pad fenced"
    using cut_line_spec [of l "length l" fenced] Cons.prems(3) by simp
  have app: "concat raw1 @ cur1 @ z = concat raw @ cur @ z" for z
    using inv(1) by (metis append.assoc)
  show ?case
  proof (cases "length l + 1 > MAX_CODE_CHUNK_BYTES")
    case True
    have "cur1 = []" using roll True by (auto simp: pack_roll_def split: if_splits)
    have "\<forall>p \<in> set (raw1 @ cut_line (length l) fenced l). p \<noteq> [] \<and> length p \<le> MAX_CODE_CHUNK_BYTES + nl_pad fenced"
      using raw1 cut by (simp only: set_append ball_Un simp_thms)
    note IH = Cons.IH [OF inv(2,3) ls this]
    have "pack_lines fenced (l # ls) raw cur n = pack_lines fenced ls (raw1 @ cut_line (length l) fenced l) cur1 n1"
      using True by (simp only: pack_lines_step [OF roll] if_True)
    with IH app [of "[]"] True \<open>cur1 = []\<close> show ?thesis by (simp add: emit_line_def)
  next
    case False
    have "n1 + (length l + 1) = length (cur1 @ l @ [lf])" "length (cur1 @ l @ [lf]) \<le> MAX_CODE_CHUNK_BYTES"
      using inv(2,6) False by simp_all
    note IH = Cons.IH [OF this ls raw1]
    have "pack_lines fenced (l # ls) raw cur n = pack_lines fenced ls raw1 (cur1 @ l @ [lf]) (n1 + (length l + 1))"
      using False by (simp only: pack_lines_step [OF roll] if_False)
    with IH False show ?thesis by (simp add: emit_line_def app)
  qed
qed

end
