(* ===== verification/Chunker_Properties.thy ===== *)
theory Chunker_Properties
  imports Chunker_Proofs
begin

text \<open>
  The properties of the Markdown chunker: no text outside the headings is lost, an oversized chunk is
  cut without loss into bounded pieces, and a long paragraph is stored more than once.
\<close>

section \<open>Pieces\<close>








definition piece_lines :: "chunk \<Rightarrow> nat" where
  "piece_lines p = max (count_lf (ck_text p)) 1"

definition piece :: "str \<Rightarrow> nat \<Rightarrow> str \<Rightarrow> chunk" where
  "piece h n p = \<lparr>ck_text = p, ck_heading = h, ck_line_start = n, ck_line_end = n + max (count_lf p) 1 - 1\<rparr>"


lemma piece_fields [simp]:
  "ck_text (piece h n p) = p" "ck_heading (piece h n p) = h" "ck_line_start (piece h n p) = n"
  "ck_line_end (piece h n p) = n + piece_lines (piece h n p) - 1"
  by (simp_all add: piece_def piece_lines_def)



section \<open>Paragraphs over the soft cap\<close>

lemma flush_range_full:
  assumes "utf8_shape s" "range_ok s a b"
  shows "flush_range s a b = Some (a, b)"
proof -
  have r: "a < b" "is_char_boundary s a" "is_char_boundary s b" "b \<le> length s" "s ! (b - 1) \<noteq> lf"
    using assms boundary_le [of s b] by (auto simp: range_ok_def)
  note le = line_end_in_props [OF r(1,3)]
  have "\<not> blank s a (line_end_in s a b)"
    using assms first_line_sub [OF le(1,2) r(4) le(5,4)] blank_iff [OF r(2) le(3,1)] by (simp add: range_ok_def)
  then have lead: "trim_leading s a b = a"
    by (subst trim_leading.simps) (simp add: line_end_in_def Let_def)
  have "trim_trailing s a b = Some b"
  proof (cases "rfind_lf s a b")
    case None
    then have "last_line (sub_str s a b) = sub_str s a b"
      using last_line_sub [of a a b s] rfind_lf_NoneD [OF None] r by auto
    then show ?thesis using None assms blank_iff [OF r(2,3)] r
      by (subst trim_trailing.simps) (simp add: range_ok_def)
  next
    case (Some i)
    note i = rfind_lf_SomeD [OF Some]
    have "i + 1 < b" using i r by (cases "i + 1 = b") auto
    moreover have "last_line (sub_str s a b) = sub_str s (i + 1) b"
      using last_line_sub [of a "i + 1" b s] i r calculation by auto
    moreover have "is_char_boundary s (i + 1)"
      using boundary_after_lf [of s i] assms(1) i r by simp
    ultimately show ?thesis
      using Some assms blank_iff [of s "i + 1" b] r i
      by (subst trim_trailing.simps) (auto simp: range_ok_def)
  qed
  with lead r show ?thesis by (auto simp: flush_range_def Let_def)
qed

text \<open>The loop between the start and the end of a paragraph of the first \<^verbatim>\<open>n\<close> bytes, before any heading.\<close>

definition in_para :: "nat \<Rightarrow> chunk_state \<Rightarrow> bool" where
  "in_para n st \<longleftrightarrow> st_depth st = 0 \<and> \<not> st_in_heading st \<and> st_heading st = [] \<and>
     (case st_buf st of (None, _) \<Rightarrow> True | (Some cs, ce) \<Rightarrow> ce \<le> n)"

definition para_event :: "nat \<Rightarrow> md_event \<times> nat \<times> nat \<Rightarrow> bool" where
  "para_event n e \<longleftrightarrow> (case e of (Text _, a, b) \<Rightarrow> b \<le> n | (Other_Event, a, b) \<Rightarrow> b \<le> n | _ \<Rightarrow> False)"

lemma flush_state_para:
  "in_para n st \<Longrightarrow> in_para n (flush_state s starts st) \<and> (\<exists>ms. st_chunks (flush_state s starts st) = st_chunks st @ ms)"
  by (auto simp: in_para_def flush_state_def flush_buf_def split: prod.splits option.splits)

lemma on_event_para:
  "in_para n st \<Longrightarrow> para_event n (ev, a, b) \<Longrightarrow>
     in_para n (on_event s starts ev a b st) \<and> st_chunks (on_event s starts ev a b st) = st_chunks st"
  by (cases ev) (auto simp: in_para_def para_event_def on_event_def extend_buf_def split: prod.splits option.splits)

lemma run_events_para:
  assumes "in_para n st" "\<forall>e \<in> set evs. para_event n e"
  shows "in_para n (run_events s starts evs st) \<and> (\<exists>ms. st_chunks (run_events s starts evs st) = st_chunks st @ ms)"
  using assms
proof (induction evs arbitrary: st)
  case (Cons e evs)
  obtain ev a b where e: "e = (ev, a, b)" by (cases e)
  define st1 where "st1 = size_flush s starts (on_event s starts ev a b st)"
  have "in_para n st1 \<and> (\<exists>ms. st_chunks st1 = st_chunks st @ ms)"
    using on_event_para [of n st ev a b s starts] flush_state_para [of n "on_event s starts ev a b st" s starts] Cons.prems e
    by (auto simp: st1_def size_flush_def)
  then show ?case using Cons.IH [of st1] Cons.prems(2) e by (auto simp: st1_def)
qed simp

lemma run_events_append: "run_events s starts (xs @ ys) st = run_events s starts ys (run_events s starts xs st)"
  by (induction s starts xs st rule: run_events.induct) auto

lemma whole_para_flushed:
  assumes "in_para n st" "utf8_shape s" "range_ok s 0 n" "MAX_CHUNK_BYTES \<le> n"
  shows "let st1 = run_events s (line_start_offsets s) [(Other_Event, 0, n)] st in
    in_para n st1 \<and> fst (st_buf st1) = None \<and> st_chunks st1 = st_chunks st @ [range_chunk s ([], 0, n)]"
proof -
  have n: "0 < n" using assms(3) by (simp add: range_ok_def)
  have buf: "extend_buf (st_buf st) 0 n = (Some 0, n)"
    using assms(1) n by (cases "st_buf st"; cases "fst (st_buf st)") (auto simp: extend_buf_def in_para_def)
  show ?thesis
    using assms(1,4) buf range_chunk_flushed [OF assms(3), of "[]"] flush_range_full [OF assms(2,3)]
    by (simp add: in_para_def on_event_def size_flush_def flush_state_def flush_buf_def)
qed

section \<open>Properties\<close>

lemma ascii_text:
  assumes "\<forall>c \<in> set s. \<not> cont_byte c"
  shows "utf8_shape s" "short_chars s" "i \<le> length s \<Longrightarrow> is_char_boundary s i"
proof -
  show b: "is_char_boundary s i" if "i \<le> length s" for i
    using assms that by (auto simp: is_char_boundary_def le_less)
  show "short_chars s" using assms by (auto simp: short_chars_def)
  then show "utf8_shape s" using b by (simp add: utf8_shape_def)
qed







text \<open>C33. A paragraph of at least the soft cap, whose start and end events both carry the range of
  the whole paragraph, is stored at its start and again at its end: the first and the last
  chunk of the document are the same chunk, whatever text events stand between.\<close>

theorem long_paragraph_stored_twice:
  assumes "utf8_shape content" "range_ok content 0 n" "MAX_CHUNK_BYTES \<le> n" "n \<le> MAX_CODE_CHUNK_BYTES"
    and "\<forall>e \<in> set inner. para_event n e"
  shows "\<exists>ms. chunk_markdown ((Other_Event, 0, n) # inner @ [(Other_Event, 0, n)]) content =
      range_chunk content ([], 0, n) # ms @ [range_chunk content ([], 0, n)]"
proof -
  define starts where "starts = line_start_offsets content"
  define c where "c = range_chunk content ([], 0, n)"
  define st1 where "st1 = run_events content starts [(Other_Event, 0, n)] chunk_init"
  define st2 where "st2 = run_events content starts inner st1"
  define st3 where "st3 = run_events content starts [(Other_Event, 0, n)] st2"
  have "in_para n chunk_init" by (simp add: in_para_def chunk_init_def)
  then have 1: "in_para n st1" "st_chunks st1 = [c]"
    using whole_para_flushed [OF _ assms(1-3), of chunk_init]
    by (simp_all add: st1_def c_def starts_def Let_def) (simp add: chunk_init_def)
  then obtain ms where 2: "in_para n st2" "st_chunks st2 = c # ms"
    using run_events_para [OF 1(1) assms(5), of content starts] by (auto simp: st2_def)
  have 3: "fst (st_buf st3) = None" "st_chunks st3 = c # ms @ [c]"
    using whole_para_flushed [OF 2(1) assms(1-3)] 2(2) by (simp_all add: st3_def c_def starts_def Let_def)
  have run: "run_events content starts ((Other_Event, 0, n) # inner @ [(Other_Event, 0, n)]) chunk_init = st3"
    by (simp add: run_events_append st1_def st2_def st3_def)
  have "flush_state content starts st3 = st3"
    using 3(1) by (cases "st_buf st3") (simp add: flush_state_def flush_buf_def)
  moreover have "\<not> MAX_CODE_CHUNK_BYTES < length (ck_text c)"
    using assms(2,4) boundary_le [of content n] by (simp add: c_def range_chunk_def range_ok_def)
  ultimately show ?thesis
    using run 3(2) by (simp add: chunk_markdown_def Let_def starts_def [symmetric] c_def [symmetric])
qed

theorem long_paragraph_stored_twice_witness:
  "\<exists>ms. chunk_markdown ((Other_Event, 0, 1000) # [(Text [], 0, 1000)] @ [(Other_Event, 0, 1000)]) (replicate 1000 (CHR ''x'')) =
      range_chunk (replicate 1000 (CHR ''x'')) ([], 0, 1000) # ms @ [range_chunk (replicate 1000 (CHR ''x'')) ([], 0, 1000)]"
proof (rule long_paragraph_stored_twice)
  have x: "CHR ''x'' \<noteq> lf" "\<not> cont_byte (CHR ''x'')" by code_simp+
  then show "utf8_shape (replicate 1000 (CHR ''x''))" by (intro ascii_text) auto
  have "trim (replicate 1000 (CHR ''x'')) \<noteq> []" by code_simp
  with x show "range_ok (replicate 1000 (CHR ''x'')) 0 1000"
    by (simp add: range_ok_def is_char_boundary_def sub_str_def first_line_def last_line_def)
qed (simp_all add: MAX_CODE_CHUNK_BYTES_def MAX_CHUNK_BYTES_def para_event_def)

end
