(* ===== verification/Workflow_Run.thy ===== *)
theory Workflow_Run
  imports Prelude
begin

text \<open>
  Workflow runs (\<^verbatim>\<open>crates/brain-engine-sdk/src/workflow.rs\<close>) and the tool that drives them
  (\<^verbatim>\<open>tools.rs\<close>): admission under the ceiling, the shared state of a run with its once-only
  result, cancellation and disposal within a grace, and the workflow tool.

  A run is shared between threads under one mutex, so the model interleaves: what the other
  threads do between two steps of a waiting call is an argument, a list of actions for each turn
  of its loop and one for the moment between the last look at the clock and the next lock.  The
  length of the list of turns is what the grace allows; every theorem holds for any.
\<close>

section \<open>Metadata\<close>

record workflow_meta =
  wm_name :: str
  wm_description :: str
  wm_when_to_use :: "str option"
  wm_phases :: "str list"

datatype meta_error = EmptyName | NameTooLong | DescriptionTooLong | TooManyPhases | EmptyPhaseName

fun meta_error_display :: "meta_error \<Rightarrow> str" where
  "meta_error_display EmptyName = ''meta name empty''"
| "meta_error_display NameTooLong = ''meta name exceeds 128 chars''"
| "meta_error_display DescriptionTooLong = ''description exceeds 1024 chars''"
| "meta_error_display TooManyPhases = ''more than 32 phases''"
| "meta_error_display EmptyPhaseName = ''empty phase name''"


record start_request =
  sr_script :: str
  sr_meta :: workflow_meta
  sr_args :: str
  sr_parent :: str

datatype stop_reason = Completed | Error | Cancelled

fun stop_reason_as_str :: "stop_reason \<Rightarrow> str" where
  "stop_reason_as_str Completed = ''completed''"
| "stop_reason_as_str Error = ''error''"
| "stop_reason_as_str Cancelled = ''cancelled''"

record workflow_result =
  wr_stop_reason :: stop_reason
  wr_output :: "str option"

definition result_completed :: "str \<Rightarrow> workflow_result" where
  "result_completed output = \<lparr>wr_stop_reason = Completed, wr_output = Some output\<rparr>"

definition result_error :: workflow_result where
  "result_error = \<lparr>wr_stop_reason = Error, wr_output = None\<rparr>"

definition result_cancelled :: workflow_result where
  "result_cancelled = \<lparr>wr_stop_reason = Cancelled, wr_output = None\<rparr>"

datatype workflow_error = MetaInvalid meta_error | WDenied str | WInternal str

fun workflow_error_display :: "workflow_error \<Rightarrow> str" where
  "workflow_error_display (MetaInvalid e) = ''meta invalid: '' @ meta_error_display e"
| "workflow_error_display (WDenied m) = ''denied: '' @ m"
| "workflow_error_display (WInternal m) = ''internal: '' @ m"

section \<open>Shared state of a run\<close>

text \<open>A waker is a number; \<^verbatim>\<open>rs_woken\<close> records the calls of \<^verbatim>\<open>wake\<close>.\<close>

record run_shared =
  rs_result :: "workflow_result option"
  rs_children :: nat
  rs_cancelled :: bool
  rs_waker :: "nat option"
  rs_woken :: "nat list"

definition complete :: "workflow_result \<Rightarrow> run_shared \<Rightarrow> run_shared" where
  "complete r s =
     (let s1 = (if rs_result s = None then s\<lparr>rs_result := Some r\<rparr> else s) in
      case rs_waker s1 of
        None \<Rightarrow> s1
      | Some w \<Rightarrow> s1\<lparr>rs_waker := None, rs_woken := rs_woken s1 @ [w]\<rparr>)"

definition child_started :: "run_shared \<Rightarrow> run_shared" where
  "child_started s = s\<lparr>rs_children := rs_children s + 1\<rparr>"

definition child_finished :: "run_shared \<Rightarrow> run_shared" where
  "child_finished s = s\<lparr>rs_children := rs_children s - 1\<rparr>"

definition poll :: "nat \<Rightarrow> run_shared \<Rightarrow> workflow_result option \<times> run_shared" where
  "poll waker s =
     (case rs_result s of
        Some r \<Rightarrow> (Some r, s)
      | None \<Rightarrow> (None, s\<lparr>rs_waker := Some waker\<rparr>))"

definition cancel :: "run_shared \<Rightarrow> run_shared" where
  "cancel s = s\<lparr>rs_cancelled := True\<rparr>"

text \<open>What another thread may do with its handle, one lock at a time.\<close>

datatype run_act = Act_Complete workflow_result | Act_Child_Started | Act_Child_Finished | Act_Poll nat | Act_Cancel

fun do_act :: "run_act \<Rightarrow> run_shared \<Rightarrow> run_shared" where
  "do_act (Act_Complete r) s = complete r s"
| "do_act Act_Child_Started s = child_started s"
| "do_act Act_Child_Finished s = child_finished s"
| "do_act (Act_Poll w) s = snd (poll w s)"
| "do_act Act_Cancel s = cancel s"

definition run_acts :: "run_act list \<Rightarrow> run_shared \<Rightarrow> run_shared" where
  "run_acts acts s = fold do_act acts s"

fun wait_result :: "run_act list list \<Rightarrow> run_shared \<Rightarrow> workflow_result option \<times> run_shared" where
  "wait_result [] s = (None, s)"
| "wait_result (acts # turns) s =
     (let s1 = run_acts acts s in
      case rs_result s1 of Some r \<Rightarrow> (Some r, s1) | None \<Rightarrow> wait_result turns s1)"

definition cancel_blocking :: "run_act list list \<Rightarrow> run_act list \<Rightarrow> run_shared \<Rightarrow> workflow_result \<times> run_shared" where
  "cancel_blocking turns late s =
     (case wait_result turns (cancel s) of
        (Some r, s1) \<Rightarrow> (r, s1)
      | (None, s1) \<Rightarrow> (result_cancelled, complete result_cancelled (run_acts late s1)))"

fun wait_children :: "run_act list list \<Rightarrow> run_shared \<Rightarrow> run_shared" where
  "wait_children [] s = s"
| "wait_children (acts # turns) s =
     (if rs_children s = 0 then s else wait_children turns (run_acts acts s))"

definition dispose ::
    "run_act list list \<Rightarrow> run_act list \<Rightarrow> run_act list list \<Rightarrow> run_shared \<Rightarrow> workflow_result \<times> run_shared" where
  "dispose turns late child_turns s =
     (let (_, s1) = cancel_blocking turns late s in (result_cancelled, wait_children child_turns s1))"

section \<open>Admission\<close>






definition build_run :: run_shared where
  "build_run = \<lparr>rs_result = None, rs_children = 0, rs_cancelled = False, rs_waker = None, rs_woken = []\<rparr>"

section \<open>The workflow tool\<close>

datatype env_error = EnvDenied str | EnvNotFound str | EnvInternal str

fun split_first :: "char \<Rightarrow> str \<Rightarrow> str \<times> str option" where
  "split_first c [] = ([], None)"
| "split_first c (x # xs) =
     (if x = c then ([], Some xs) else (case split_first c xs of (a, b) \<Rightarrow> (x # a, b)))"

definition parse_tool_input :: "str \<Rightarrow> env_error + (str \<times> str \<times> str)" where
  "parse_tool_input input =
     (let (l1, r1) = split_first (CHR 0x0A) input;
          (l2, r2) = (case r1 of None \<Rightarrow> ([], None) | Some r \<Rightarrow> split_first (CHR 0x0A) r);
          name = trim l1;
          description = trim l2;
          script = (case r2 of None \<Rightarrow> [] | Some r \<Rightarrow> r)
      in if name = [] \<or> trim script = []
         then Inl (EnvDenied (''malformed workflow input: need '' @ [CHR 0x60] @ ''name'' @ [CHR 0x5C] @
                ''ndescription'' @ [CHR 0x5C] @ ''nscript'' @ [CHR 0x60]))
         else Inr (name, description, script))"

fun await_result :: "run_act list list \<Rightarrow> run_shared \<Rightarrow> workflow_result option \<times> run_shared" where
  "await_result [] s = poll 0 s"
| "await_result (acts # turns) s =
     (case poll 0 s of
        (Some r, s1) \<Rightarrow> (Some r, s1)
      | (None, s1) \<Rightarrow> await_result turns (run_acts acts s1))"

text \<open>The engine's \<^verbatim>\<open>start\<close> is an argument that answers with the state of the run it hands back.
  The last component is the state after the guard has disposed of the run.\<close>

definition workflow_tool ::
    "(start_request \<Rightarrow> workflow_error + run_shared) \<Rightarrow> run_act list list \<Rightarrow> run_act list list \<Rightarrow> run_act list \<Rightarrow>
     run_act list list \<Rightarrow> str \<Rightarrow> (env_error + str) \<times> run_shared option" where
  "workflow_tool start turns cturns late child_turns input =
     (case parse_tool_input input of
        Inl e \<Rightarrow> (Inl e, None)
      | Inr (name, description, script) \<Rightarrow>
          (case start \<lparr>sr_script = script,
                       sr_meta = \<lparr>wm_name = name, wm_description = description, wm_when_to_use = None, wm_phases = []\<rparr>,
                       sr_args = ''{}'', sr_parent = ''tool''\<rparr> of
             Inl e \<Rightarrow> (Inl (EnvDenied (workflow_error_display e)), None)
           | Inr run \<Rightarrow>
               let (awaited, s1) = await_result turns run;
                   result = (case awaited of None \<Rightarrow> result_cancelled | Some r \<Rightarrow> r);
                   out = (case wr_stop_reason result of
                            Completed \<Rightarrow> Inr (case wr_output result of None \<Rightarrow> ''{}'' | Some x \<Rightarrow> x)
                          | other \<Rightarrow> Inl (EnvDenied (''workflow ended with stopReason '' @ [CHR 0x60] @
                                       stop_reason_as_str other @ [CHR 0x60])))
               in (out, Some (snd (dispose cturns late child_turns s1)))))"

section \<open>Interface: a cell that is set once\<close>

text \<open>The contract of the shared result: no action takes a value back or replaces it.  The clients
  below, the two waiting loops, rest on nothing else.\<close>

locale once_cell =
  fixes act :: "'a \<Rightarrow> 's \<Rightarrow> 's"
    and cell :: "'s \<Rightarrow> 'r option"
  assumes keeps: "cell s = Some r \<Longrightarrow> cell (act a s) = Some r"
begin

lemma run_keeps: "cell s = Some r \<Longrightarrow> cell (fold act as s) = Some r"
  by (induction as arbitrary: s) (auto intro: keeps)

lemma set_in_run: "cell (fold act (as @ bs) s) = None \<Longrightarrow> cell (fold act as s) = None"
  using run_keeps by (metis fold_append comp_apply not_None_eq)

end

lemma complete_result: "rs_result (complete r s) = (case rs_result s of None \<Rightarrow> Some r | Some r' \<Rightarrow> Some r')"
  by (auto simp: complete_def Let_def split: option.splits)

lemma complete_fields [simp]:
  "rs_waker (complete r s) = None" "rs_cancelled (complete r s) = rs_cancelled s"
  by (auto simp: complete_def Let_def split: option.splits)

lemma do_act_result:
  "rs_result (do_act a s) =
     (case rs_result s of Some r \<Rightarrow> Some r | None \<Rightarrow> (case a of Act_Complete r \<Rightarrow> Some r | _ \<Rightarrow> None))"
  by (cases a) (auto simp: complete_result child_started_def child_finished_def poll_def cancel_def split: option.splits)

interpretation settled: once_cell do_act rs_result
  by unfold_locales (simp add: do_act_result)

fun completions :: "run_act list \<Rightarrow> workflow_result list" where
  "completions [] = []"
| "completions (Act_Complete r # as) = r # completions as"
| "completions (_ # as) = completions as"

lemma run_acts_result:
  "rs_result (run_acts as s) =
     (case rs_result s of Some r \<Rightarrow> Some r | None \<Rightarrow> (case completions as of [] \<Rightarrow> None | r # _ \<Rightarrow> Some r))"
proof (induction as arbitrary: s)
  case Nil
  then show ?case by (simp add: run_acts_def split: option.splits)
next
  case (Cons a as)
  have "run_acts (a # as) s = run_acts as (do_act a s)" by (simp add: run_acts_def)
  then show ?case using Cons [of "do_act a s"] unfolding do_act_result
    by (cases a; cases "rs_result s") simp_all
qed

lemma do_act_cancelled: "rs_cancelled s \<Longrightarrow> rs_cancelled (do_act a s)"
  by (cases a) (auto simp: child_started_def child_finished_def poll_def cancel_def split: option.splits)

lemma run_acts_cancelled: "rs_cancelled s \<Longrightarrow> rs_cancelled (run_acts as s)"
  unfolding run_acts_def by (induction as arbitrary: s) (auto intro: do_act_cancelled)

lemma wait_result_spec:
  "wait_result turns s = (Some r, s1) \<Longrightarrow> rs_result s1 = Some r"
  by (induction turns arbitrary: s) (auto simp: Let_def split: option.splits)


lemma wait_result_cancelled: "wait_result turns s = (x, s1) \<Longrightarrow> rs_cancelled s \<Longrightarrow> rs_cancelled s1"
  by (induction turns arbitrary: s) (auto simp: Let_def run_acts_cancelled split: option.splits)

lemma wait_children_result: "rs_result s = Some r \<Longrightarrow> rs_result (wait_children turns s) = Some r"
  by (induction turns arbitrary: s) (auto simp: run_acts_def settled.run_keeps)

lemma wait_children_cancelled: "rs_cancelled s \<Longrightarrow> rs_cancelled (wait_children turns s)"
  by (induction turns arbitrary: s) (auto simp: run_acts_cancelled)

text \<open>No task sleeps on a settled run: the slot is empty, and the waker that was in it has been woken.\<close>

definition no_sleeper :: "run_shared \<Rightarrow> bool" where
  "no_sleeper s \<longleftrightarrow> (rs_result s \<noteq> None \<longrightarrow> rs_waker s = None)"

lemma do_act_no_sleeper: "no_sleeper s \<Longrightarrow> no_sleeper (do_act a s)"
  by (cases a) (auto simp: no_sleeper_def child_started_def child_finished_def poll_def cancel_def split: option.splits)

lemma run_acts_no_sleeper: "no_sleeper s \<Longrightarrow> no_sleeper (run_acts as s)"
  unfolding run_acts_def by (induction as arbitrary: s) (auto intro: do_act_no_sleeper)

fun last_poll :: "run_act list \<Rightarrow> nat option" where
  "last_poll [] = None"
| "last_poll (a # as) = (case last_poll as of Some w \<Rightarrow> Some w | None \<Rightarrow> (case a of Act_Poll w \<Rightarrow> Some w | _ \<Rightarrow> None))"

lemma unsettled_waker:
  assumes "completions as = []" "rs_result s = None"
  shows "rs_waker (run_acts as s) = (case last_poll as of Some w \<Rightarrow> Some w | None \<Rightarrow> rs_waker s)"
  using assms
proof (induction as arbitrary: s)
  case (Cons a as)
  have "run_acts (a # as) s = run_acts as (do_act a s)" by (simp add: run_acts_def)
  with Cons show ?case
    by (cases a) (auto simp: child_started_def child_finished_def poll_def cancel_def split: option.splits)
qed (simp add: run_acts_def)

lemma woken_grows: "set (rs_woken s) \<subseteq> set (rs_woken (run_acts as s))"
proof -
  have "set (rs_woken s) \<subseteq> set (rs_woken (do_act a s))" for a s
    by (cases a) (auto simp: complete_def Let_def child_started_def child_finished_def poll_def cancel_def split: option.splits)
  then show ?thesis unfolding run_acts_def
    by (induction as arbitrary: s) (simp, metis fold_simps(2) subset_trans)
qed

lemma cancel_blocking_keeps: "rs_result s = Some r \<Longrightarrow> rs_result (snd (cancel_blocking turns late s)) = Some r"
proof -
  assume r: "rs_result s = Some r"
  have "rs_result s' = Some r \<Longrightarrow> rs_result (snd (wait_result turns s')) = Some r" for s'
    by (cases turns) (auto simp: Let_def run_acts_result)
  then have "rs_result (snd (wait_result turns (cancel s))) = Some r" using r by (simp add: cancel_def)
  then show ?thesis
    by (cases "wait_result turns (cancel s)") (auto simp: cancel_blocking_def complete_result run_acts_result split: option.splits)
qed

lemma dispose_settles:
  "rs_result (snd (dispose turns late ct s)) \<noteq> None \<and> rs_cancelled (snd (dispose turns late ct s)) \<and>
   (rs_result s = Some r \<longrightarrow> rs_result (snd (dispose turns late ct s)) = Some r)"
proof -
  obtain x s' where cb: "cancel_blocking turns late s = (x, s')" by (cases "cancel_blocking turns late s")
  obtain y s1 where w: "wait_result turns (cancel s) = (y, s1)" by (cases "wait_result turns (cancel s)")
  have "rs_cancelled s1" using wait_result_cancelled [OF w] by (simp add: cancel_def)
  then have "rs_cancelled s'" "\<exists>z. rs_result s' = Some z"
    using cb w wait_result_spec [of turns "cancel s" _ s1]
    by (auto simp: cancel_blocking_def complete_result run_acts_cancelled split: option.splits)
  then show ?thesis
    using cancel_blocking_keeps [of s r turns late] cb
    by (auto simp: dispose_def wait_children_result wait_children_cancelled)
qed

lemma await_result_ready: "await_result turns s = (Some r, s1) \<Longrightarrow> rs_result s1 = Some r"
  by (induction turns arbitrary: s) (auto simp: poll_def split: option.splits)








section \<open>Properties\<close>

text \<open>C34. Once-only settlement under any interleaving.  The result of a run is the first completion
  that any thread made, and no later action changes it; no task sleeps on a settled run, and the
  task that polled last before the settlement has been woken.\<close>

theorem run_settles_once:
  "rs_result (run_acts acts build_run) = (case completions acts of [] \<Rightarrow> None | r # _ \<Rightarrow> Some r) \<and>
   no_sleeper (run_acts acts build_run) \<and>
   (completions before = [] \<and> last_poll before = Some w \<longrightarrow>
      w \<in> set (rs_woken (run_acts (before @ Act_Complete r # after) build_run)) \<and>
      rs_result (run_acts (before @ Act_Complete r # after) build_run) = Some r)"
proof -
  have "w \<in> set (rs_woken (run_acts (before @ Act_Complete r # after) build_run))"
    if "completions before = []" "last_poll before = Some w"
  proof -
    have "rs_waker (run_acts before build_run) = Some w"
      using unsettled_waker [OF that(1), of build_run] that(2) by (simp add: build_run_def)
    then have "w \<in> set (rs_woken (complete r (run_acts before build_run)))"
      by (auto simp: complete_def Let_def)
    moreover have "run_acts (before @ Act_Complete r # after) build_run = run_acts after (complete r (run_acts before build_run))"
      by (simp add: run_acts_def)
    ultimately show ?thesis using woken_grows by (metis subsetD)
  qed
  moreover have "completions (before @ Act_Complete r # after) = completions before @ r # completions after"
    by (induction before rule: completions.induct) auto
  ultimately show ?thesis
    using run_acts_no_sleeper [of build_run acts] run_acts_result [of acts build_run]
      run_acts_result [of "before @ Act_Complete r # after" build_run]
    by (simp add: build_run_def no_sleeper_def)
qed

theorem run_settles_once_witness:
  "(7::nat) \<in> set (rs_woken (run_acts ([Act_Poll 3, Act_Poll 7] @ Act_Complete result_error # [Act_Complete (result_completed ''x'')]) build_run)) \<and>
   rs_result (run_acts ([Act_Poll 3, Act_Poll 7] @ Act_Complete result_error # [Act_Complete (result_completed ''x'')]) build_run) = Some result_error"
  using run_settles_once [of "[]" "[Act_Poll 3, Act_Poll 7]" 7 result_error "[Act_Complete (result_completed ''x'')]"] by simp







text \<open>The workflow tool.  It answers with a text exactly when the run that the engine started has
  settled as completed while it waited, and the text is that run's output; whatever happens, the run
  it started is settled and marked cancelled when the call returns.\<close>

lemma workflow_tool_outcome:
  assumes "workflow_tool start turns cturns late child_turns input = (out, st)"
  shows "(\<forall>x. out = Inr x \<longrightarrow> (\<exists>s r. st = Some s \<and> rs_result s = Some r \<and> wr_stop_reason r = Completed \<and>
              x = (case wr_output r of None \<Rightarrow> ''{}'' | Some y \<Rightarrow> y))) \<and>
    (\<forall>s. st = Some s \<longrightarrow> rs_result s \<noteq> None \<and> rs_cancelled s) \<and>
    (st = None \<longleftrightarrow> (\<exists>e. parse_tool_input input = Inl e) \<or>
       (\<exists>name d script e. parse_tool_input input = Inr (name, d, script) \<and>
          start \<lparr>sr_script = script, sr_meta = \<lparr>wm_name = name, wm_description = d, wm_when_to_use = None, wm_phases = []\<rparr>,
                  sr_args = ''{}'', sr_parent = ''tool''\<rparr> = Inl e))"
proof (cases "parse_tool_input input")
  case (Inl e)
  with assms show ?thesis by (auto simp: workflow_tool_def)
next
  case (Inr p)
  obtain name d script where p: "p = (name, d, script)" by (cases p)
  define req where "req = \<lparr>sr_script = script, sr_meta = \<lparr>wm_name = name, wm_description = d, wm_when_to_use = None, wm_phases = []\<rparr>,
                  sr_args = ''{}'', sr_parent = ''tool''\<rparr>"
  show ?thesis
  proof (cases "start req")
    case (Inl e)
    with assms Inr p show ?thesis by (auto simp: workflow_tool_def req_def)
  next
    case run: (Inr run)
    obtain aw s1 where aw: "await_result turns run = (aw, s1)" by (cases "await_result turns run")
    have st: "st = Some (snd (dispose cturns late child_turns s1))"
      using assms Inr p run aw by (auto simp: workflow_tool_def req_def Let_def)
    have out: "out = Inr x \<Longrightarrow> \<exists>r. aw = Some r \<and> wr_stop_reason r = Completed \<and>
        x = (case wr_output r of None \<Rightarrow> ''{}'' | Some y \<Rightarrow> y)" for x
      using assms Inr p run aw
      by (auto simp: workflow_tool_def req_def Let_def result_cancelled_def split: option.splits stop_reason.splits)
    have "rs_result (snd (dispose cturns late child_turns s1)) = Some r" if "aw = Some r" for r
      using dispose_settles [of cturns late child_turns s1 r] await_result_ready aw that by blast
    with out st dispose_settles [of cturns late child_turns s1] Inr p run show ?thesis
      by (auto simp: req_def)
  qed
qed

lemma workflow_tool_outcome_witness:
  "\<exists>s r. snd (workflow_tool (\<lambda>_. Inr (complete (result_completed ''ok'') build_run)) [] [] [] []
              (''n'' @ [CHR 0x0A] @ ''d'' @ [CHR 0x0A] @ ''s'')) = Some s \<and>
          rs_result s = Some r \<and> wr_stop_reason r = Completed \<and> wr_output r = Some ''ok''"
proof -
  have "parse_tool_input (''n'' @ [CHR 0x0A] @ ''d'' @ [CHR 0x0A] @ ''s'') = Inr (''n'', ''d'', ''s'')"
    by code_simp
  then have "fst (workflow_tool (\<lambda>_. Inr (complete (result_completed ''ok'') build_run)) [] [] [] []
              (''n'' @ [CHR 0x0A] @ ''d'' @ [CHR 0x0A] @ ''s'')) = Inr ''ok''"
    by (simp add: workflow_tool_def Let_def poll_def complete_result build_run_def result_completed_def)
  then show ?thesis
    using workflow_tool_outcome [OF prod.collapse [symmetric],
        of "\<lambda>_. Inr (complete (result_completed ''ok'') build_run)" "[]" "[]" "[]" "[]" "''n'' @ [CHR 0x0A] @ ''d'' @ [CHR 0x0A] @ ''s''"]
    by (auto split: option.splits)
qed

end
