(* ===== verification/Decide_Sequence.thy ===== *)
theory Decide_Sequence
  imports Json_Value
begin

text \<open>
  The question schema and the sequence builder of the decision head
  (\<^verbatim>\<open>src/workflow/decide/sequence.rs\<close>): closed question types, the rendering of answer options, and
  the token sequence with one marker per option.  The tokenizer is a record of its four constants
  and its encoder; the compact printer of JSON values (\<^verbatim>\<open>serde_json\<close>) is an argument.
\<close>

section \<open>Questions\<close>

datatype qtype = Choice | Score | Noul

fun qtype_as_str :: "qtype \<Rightarrow> str" where
  "qtype_as_str Choice = ''choice''"
| "qtype_as_str Score = ''score''"
| "qtype_as_str Noul = ''noul''"

definition em_dash :: str where
  "em_dash = [CHR 0xE2, CHR 0x80, CHR 0x94]"

definition qtype_parse :: "str \<Rightarrow> str + qtype" where
  "qtype_parse raw =
     (if raw = ''choice'' then Inr Choice
      else if raw = ''score'' then Inr Score
      else if raw = ''noul'' then Inr Noul
      else Inl (''unknown question type: '' @ raw @ '' '' @ em_dash @ '' expected choice | score | noul''))"

datatype criteria = ChoiceMap "(str \<times> str option) list" | ScoreList "str list" | NoulPair "str option" "str option"

record typed_question =
  tq_qtype :: qtype
  tq_instructions :: str
  tq_criteria :: criteria

definition question_choice :: "str \<Rightarrow> (str \<times> str option) list \<Rightarrow> typed_question" where
  "question_choice instructions options =
     \<lparr>tq_qtype = Choice, tq_instructions = instructions, tq_criteria = ChoiceMap options\<rparr>"

definition question_score :: "str \<Rightarrow> str list \<Rightarrow> typed_question" where
  "question_score instructions levels =
     \<lparr>tq_qtype = Score, tq_instructions = instructions, tq_criteria = ScoreList levels\<rparr>"

definition question_noul :: "str \<Rightarrow> typed_question" where
  "question_noul instructions =
     \<lparr>tq_qtype = Noul, tq_instructions = instructions, tq_criteria = NoulPair None None\<rparr>"

definition MAX_OPTIONS :: nat where
  "MAX_OPTIONS = 20"

fun join_with :: "str \<Rightarrow> str list \<Rightarrow> str" where
  "join_with sep [] = []"
| "join_with sep [x] = x"
| "join_with sep (x # y # ys) = x @ sep @ join_with sep (y # ys)"

definition render_key :: "str \<Rightarrow> str" where
  "render_key k =
     [CHR 0x22] @ concat (map (\<lambda>c. if c = CHR 0x22 \<or> c = CHR 0x5C then [CHR 0x5C, c] else [c]) k) @ [CHR 0x22]"

fun render_criterion :: "(json \<Rightarrow> str) \<Rightarrow> json \<Rightarrow> str" where
  "render_criterion print (J_Str s) = s"
| "render_criterion print (J_Arr items) = ''['' @ join_with '', '' (map (render_criterion print) items) @ '']''"
| "render_criterion print (J_Obj fs) =
     ''{'' @ join_with '', '' (map (\<lambda>(k, v). render_key k @ '': '' @ render_criterion print v) fs) @ ''}''"
| "render_criterion print J_Null = ''null''"
| "render_criterion print (J_Bool b) = print (J_Bool b)"
| "render_criterion print (J_Int n) = print (J_Int n)"
| "render_criterion print (J_Float x) = print (J_Float x)"

definition as_optional_text :: "(json \<Rightarrow> str) \<Rightarrow> json \<Rightarrow> str option" where
  "as_optional_text print v =
     (case v of J_Str s \<Rightarrow> if s \<noteq> [] then Some s else None | other \<Rightarrow> Some (render_criterion print other))"

definition choice_criterion :: "(json \<Rightarrow> str) \<Rightarrow> json \<Rightarrow> str option" where
  "choice_criterion print v =
     (case v of
        J_Null \<Rightarrow> None
      | J_Str s \<Rightarrow> if s = [] then None else Some (render_criterion print v)
      | other \<Rightarrow> Some (render_criterion print other))"

definition parse_criteria :: "(json \<Rightarrow> str) \<Rightarrow> qtype \<Rightarrow> json \<Rightarrow> str + criteria" where
  "parse_criteria print qt v =
     (case qt of
        Choice \<Rightarrow>
          (case Option.bind (j_get v ''criteria'') as_object of
             None \<Rightarrow> Inl (''choice questions require a '' @ [CHR 0x60] @ ''criteria'' @ [CHR 0x60] @ '' object'')
           | Some m \<Rightarrow> Inr (ChoiceMap (map (\<lambda>(k, x). (k, choice_criterion print x)) m)))
      | Score \<Rightarrow>
          (case Option.bind (j_get v ''criteria'') as_array of
             None \<Rightarrow> Inl (''score questions require a '' @ [CHR 0x60] @ ''criteria'' @ [CHR 0x60] @ '' array'')
           | Some xs \<Rightarrow> Inr (ScoreList (map (render_criterion print) xs)))
      | Noul \<Rightarrow>
          (case j_get v ''criteria'' of
             Some (J_Obj m) \<Rightarrow>
               Inr (NoulPair (Option.bind (map_of m ''false'') (as_optional_text print))
                             (Option.bind (map_of m ''true'') (as_optional_text print)))
           | _ \<Rightarrow> Inr (NoulPair None None)))"

definition parse_question :: "(json \<Rightarrow> str) \<Rightarrow> json \<Rightarrow> str + typed_question" where
  "parse_question print v =
     (case as_object v of
        None \<Rightarrow> Inl ''question must be a JSON object''
      | Some _ \<Rightarrow>
          (case Option.bind (j_get v ''qtype'') as_str of
             None \<Rightarrow> Inl (''question requires a '' @ [CHR 0x60] @ ''qtype'' @ [CHR 0x60] @ '' string'')
           | Some raw \<Rightarrow>
               (case qtype_parse raw of
                  Inl e \<Rightarrow> Inl e
                | Inr qt \<Rightarrow>
                    let instructions = (case j_get v ''instructions'' of
                          None \<Rightarrow> []
                        | Some (J_Str s) \<Rightarrow> s
                        | Some other \<Rightarrow> render_criterion print other)
                    in (case parse_criteria print qt v of
                          Inl e \<Rightarrow> Inl e
                        | Inr c \<Rightarrow> Inr \<lparr>tq_qtype = qt, tq_instructions = instructions, tq_criteria = c\<rparr>))))"

definition choice_text :: "str \<times> str option \<Rightarrow> str" where
  "choice_text o1 =
     (case o1 of (k, v) \<Rightarrow> (case v of None \<Rightarrow> k | Some crit \<Rightarrow> if crit = [] then k else k @ '': '' @ crit))"

definition render_options :: "typed_question \<Rightarrow> str list" where
  "render_options q =
     (case tq_criteria q of
        ChoiceMap options \<Rightarrow> map choice_text options
      | ScoreList levels \<Rightarrow>
          map (\<lambda>(i, c). ''level '' @ show_nat i @ '': '' @ c) (zip [0..<length levels] levels)
      | NoulPair false_opt true_opt \<Rightarrow>
          [case false_opt of None \<Rightarrow> ''no, the statement does not hold'' | Some x \<Rightarrow> x,
           case true_opt of None \<Rightarrow> ''yes, the statement holds'' | Some x \<Rightarrow> x])"

definition serialize_state :: "(json \<Rightarrow> str) \<Rightarrow> json \<Rightarrow> str" where
  "serialize_state print s = (case s of J_Str t \<Rightarrow> t | other \<Rightarrow> print other)"

definition too_many :: str where
  "too_many = ''schema exceeds '' @ show_nat MAX_OPTIONS @ '' options '' @ em_dash @ '' split hierarchically''"

fun validate_schema :: "(str \<times> typed_question) list \<Rightarrow> str + unit" where
  "validate_schema [] = Inl ''schema requires at least one question''"
| "validate_schema (q # qs) =
     (case List.find (\<lambda>(_, q). length (render_options q) > MAX_OPTIONS \<or> render_options q = []) (q # qs) of
        None \<Rightarrow> Inr ()
      | Some (rid, q) \<Rightarrow>
          let options = length (render_options q) in
          if options > MAX_OPTIONS
          then Inl (too_many @ '' (question '' @ rid @ '' carries '' @ show_nat options @ '')'')
          else Inl (''question '' @ rid @ '' carries no options''))"

section \<open>Sequences\<close>

record tokenizer =
  tk_cls :: int
  tk_sep :: int
  tk_mask :: int
  tk_mask_str :: str
  tk_encode :: "str \<Rightarrow> int list"

record built_sequence =
  bs_ids :: "int list"
  bs_markers :: "nat list"

text \<open>\<^verbatim>\<open>str::replace\<close>, also for an empty pattern, which matches before every character and at the end.\<close>

function replace_str :: "str \<Rightarrow> str \<Rightarrow> str \<Rightarrow> str" where
  "replace_str pat with s =
     (if pat = [] then concat (map (\<lambda>c. if 128 \<le> (of_char c :: nat) \<and> (of_char c :: nat) < 192 then [c] else with @ [c]) s) @ with
      else if s = [] then []
      else if take (length pat) s = pat then with @ replace_str pat with (drop (length pat) s)
      else hd s # replace_str pat with (tl s))"
  by pat_completeness auto
termination
  by (relation "measure (\<lambda>(pat, with, s). length s)") auto

declare replace_str.simps [simp del]

fun order_ok :: "nat \<Rightarrow> bool list \<Rightarrow> nat list \<Rightarrow> bool" where
  "order_ok n seen [] = True"
| "order_ok n seen (i # is) = (i < n \<and> \<not> seen ! i \<and> order_ok n (seen[i := True]) is)"

definition check_order :: "nat \<Rightarrow> nat list option \<Rightarrow> str + nat list" where
  "check_order n option_order =
     (case option_order of
        None \<Rightarrow> Inr [0..<n]
      | Some order \<Rightarrow>
          if order_ok n (replicate n False) order then Inr order
          else Inl ''option_order must be a permutation of the options'')"

definition encode_option :: "tokenizer \<Rightarrow> str \<Rightarrow> nat \<Rightarrow> int list" where
  "encode_option tk t per = tk_mask tk # take per (tk_encode tk ('' '' @ t))"

definition total_len :: "int list list \<Rightarrow> nat" where
  "total_len encs = sum_list (map length encs)"

definition option_width :: "tokenizer \<Rightarrow> str list \<Rightarrow> nat list \<Rightarrow> nat \<Rightarrow> nat" where
  "option_width tk options order head_max_len =
     (if head_max_len - total_len (map (\<lambda>i. encode_option tk (options ! i) 48) order) < 16
      then max ((head_max_len - 16) div max (length options) 1) 4
      else 48)"

definition fit_state :: "bool \<Rightarrow> nat \<Rightarrow> int list \<Rightarrow> int list" where
  "fit_state truncate_left room state_ids =
     (if truncate_left
      then if room = 0 then [] else if length state_ids > room then drop (length state_ids - room) state_ids else state_ids
      else take room state_ids)"

definition build_sequence ::
    "(json \<Rightarrow> str) \<Rightarrow> tokenizer \<Rightarrow> json \<Rightarrow> typed_question \<Rightarrow> nat \<Rightarrow> nat \<Rightarrow> nat list option \<Rightarrow> bool \<Rightarrow> str + built_sequence" where
  "build_sequence print tk state q max_len head_max_len option_order truncate_left =
     (let options = render_options q in
      if length options > MAX_OPTIONS then Inl too_many
      else case check_order (length options) option_order of
        Inl e \<Rightarrow> Inl e
      | Inr order \<Rightarrow>
          let head_text = qtype_as_str (tq_qtype q) @ '' question: '' @ replace_str (tk_mask_str tk) '' '' (tq_instructions q);
              per = option_width tk options order head_max_len;
              encs = map (\<lambda>i. encode_option tk (options ! i) per) order;
              head = take (max 8 (head_max_len - total_len encs)) (tk_encode tk head_text);
              frame_len = 1 + length head + 1 + total_len encs + 1 + 1;
              state_ids = fit_state truncate_left (max_len - frame_len) (tk_encode tk (serialize_state print state));
              ids = take max_len ([tk_cls tk] @ head @ [tk_sep tk] @ concat encs @ [tk_sep tk] @ state_ids @ [tk_sep tk]);
              markers = filter (\<lambda>i. ids ! i = tk_mask tk) [0..<length ids]
          in if length markers \<noteq> length options
             then Inl (''options exceed head_max_len '' @ em_dash @ '' '' @ show_nat (length markers) @
                       '' markers survive for '' @ show_nat (length options) @ '' options'')
             else Inr \<lparr>bs_ids = ids, bs_markers = markers\<rparr>)"

section \<open>Marker positions\<close>

definition positions :: "'a \<Rightarrow> 'a list \<Rightarrow> nat list" where
  "positions m xs = filter (\<lambda>i. xs ! i = m) [0..<length xs]"

lemma positions_append: "positions m (xs @ ys) = positions m xs @ map (\<lambda>i. length xs + i) (positions m ys)"
proof -
  have "[0..<length (xs @ ys)] = [0..<length xs] @ map (\<lambda>i. length xs + i) [0..<length ys]"
    by (simp add: upt_add_eq_append [of 0] map_add_upt add.commute)
  then show ?thesis
    by (auto simp: positions_def filter_map nth_append comp_def intro!: filter_cong arg_cong [where f = "map _"])
qed

lemma positions_none: "m \<notin> set xs \<Longrightarrow> positions m xs = []"
  by (auto simp: positions_def filter_empty_conv)

lemma positions_Cons: "positions m (x # xs) = (if x = m then [0] else []) @ map Suc (positions m xs)"
  using positions_append [of m "[x]" xs] by (simp add: positions_def)

lemma positions_take: "positions m (take n xs) = filter (\<lambda>i. i < n) (positions m xs)"
proof -
  have "positions m xs = positions m (take n xs) @ map (\<lambda>i. length (take n xs) + i) (positions m (drop n xs))"
    using positions_append [of m "take n xs" "drop n xs"] by simp
  moreover have "filter (\<lambda>i. i < n) (positions m (take n xs)) = positions m (take n xs)"
    by (subst filter_id_conv) (simp add: positions_def)
  moreover have "filter (\<lambda>i. i < n) (map (\<lambda>i. length (take n xs) + i) (positions m (drop n xs))) = []"
    by (auto simp: filter_empty_conv positions_def)
  ultimately show ?thesis by (metis append_Nil2 filter_append)
qed

definition block_starts :: "nat \<Rightarrow> 'a list list \<Rightarrow> nat list" where
  "block_starts base encs = map (\<lambda>k. base + sum_list (map length (take k encs))) [0..<length encs]"

lemma block_starts_Cons: "block_starts base (e # es) = base # block_starts (base + length e) es"
  by (simp add: block_starts_def upt_conv_Cons map_Suc_upt [symmetric] comp_def add.assoc del: upt_Suc)

lemma positions_blocks:
  "\<forall>e \<in> set encs. \<exists>body. e = m # body \<and> m \<notin> set body \<Longrightarrow> map (\<lambda>i. base + i) (positions m (concat encs)) = block_starts base encs"
proof (induction encs arbitrary: base)
  case Nil
  then show ?case by (simp add: positions_def block_starts_def)
next
  case (Cons e es)
  then obtain body where e: "e = m # body" "m \<notin> set body" by auto
  have "positions m e = [0]" using e by (simp add: positions_Cons positions_none)
  then show ?case using Cons.IH [of "base + length e"] Cons.prems
    by (simp add: positions_append block_starts_Cons comp_def add.assoc)
qed

lemma order_ok_distinct:
  assumes "order_ok n seen is" "length seen = n"
  shows "distinct is \<and> (\<forall>i \<in> set is. i < n \<and> \<not> seen ! i)"
  using assms
proof (induction "is" arbitrary: seen)
  case (Cons i js)
  then have "distinct js \<and> (\<forall>j \<in> set js. j < n \<and> \<not> seen[i := True] ! j)"
    using Cons.IH [of "seen[i := True]"] by (simp del: nth_list_update)
  moreover have "i \<notin> set js" using calculation Cons.prems by (auto dest!: bspec [of "set js" _ i])
  ultimately show ?case using Cons.prems by (auto simp: nth_list_update split: if_splits)
qed simp

lemma check_order_distinct:
  "check_order n oo = Inr order \<Longrightarrow> distinct order \<and> set order \<subseteq> {..<n}"
  using order_ok_distinct [of n "replicate n False" order]
  by (auto simp: check_order_def split: option.splits if_splits)

lemma filter_full: "n = length (filter P xs) \<Longrightarrow> length xs \<le> n \<Longrightarrow> filter P xs = xs \<and> length xs = n"
  by (metis filter_True le_antisym length_filter_le length_filter_less linorder_not_less)

section \<open>Properties\<close>

text \<open>C37. The markers are the options.  With a tokenizer that encodes no text to one of the three
  special tokens, an accepted sequence is the frame cut to the length limit: the classifier token,
  the question, a separator, and one block for each option, the marker followed by the first tokens of that
  option (at least four where it has them).  The order used is a permutation of the options, the markers
  are the starts of the blocks in that order, and there is one for each of the at most twenty options.\<close>

theorem sequence_markers:
  assumes "build_sequence print tk state q max_len head_max_len option_order truncate_left = Inr b"
    and "tk_cls tk \<noteq> tk_mask tk" and "tk_sep tk \<noteq> tk_mask tk"
    and "\<forall>t. tk_mask tk \<notin> set (tk_encode tk t)"
  shows "length (render_options q) \<le> MAX_OPTIONS \<and> length (bs_ids b) \<le> max_len \<and>
    (\<exists>order head rest per. 4 \<le> per \<and> distinct order \<and> set order = {..<length (render_options q)} \<and>
       (let encs = map (\<lambda>i. tk_mask tk # take per (tk_encode tk ('' '' @ render_options q ! i))) order in
        bs_ids b = take max_len (tk_cls tk # head @ tk_sep tk # concat encs @ rest) \<and>
        bs_markers b = block_starts (length head + 2) encs))"
proof -
  define options where "options = render_options q"
  define n where "n = length options"
  have cap: "n \<le> MAX_OPTIONS"
  proof (rule ccontr)
    assume "\<not> n \<le> MAX_OPTIONS"
    then have "build_sequence print tk state q max_len head_max_len option_order truncate_left = Inl too_many"
      unfolding build_sequence_def Let_def n_def options_def by simp
    with assms(1) show False by simp
  qed
  have "check_order n option_order \<noteq> Inl e" for e
  proof
    assume "check_order n option_order = Inl e"
    with cap have "build_sequence print tk state q max_len head_max_len option_order truncate_left = Inl e"
      unfolding build_sequence_def Let_def n_def options_def by simp
    with assms(1) show False by simp
  qed
  then obtain order where order: "check_order n option_order = Inr order"
    by (cases "check_order n option_order") auto
  define per where "per = option_width tk options order head_max_len"
  define encs where "encs = map (\<lambda>i. encode_option tk (options ! i) per) order"
  define head where "head = take (max 8 (head_max_len - total_len encs)) (tk_encode tk
      (qtype_as_str (tq_qtype q) @ '' question: '' @ replace_str (tk_mask_str tk) '' '' (tq_instructions q)))"
  define st where "st = fit_state truncate_left (max_len - (1 + length head + 1 + total_len encs + 1 + 1)) (tk_encode tk (serialize_state print state))"
  define rest where "rest = tk_sep tk # st @ [tk_sep tk]"
  define ids where "ids = take max_len (tk_cls tk # head @ tk_sep tk # concat encs @ rest)"
  have b: "b = \<lparr>bs_ids = ids, bs_markers = positions (tk_mask tk) ids\<rparr>" "length (positions (tk_mask tk) ids) = n"
  proof -
    have "build_sequence print tk state q max_len head_max_len option_order truncate_left =
       (if length (positions (tk_mask tk) ids) \<noteq> n
        then Inl (''options exceed head_max_len '' @ em_dash @ '' '' @ show_nat (length (positions (tk_mask tk) ids)) @
                  '' markers survive for '' @ show_nat n @ '' options'')
        else Inr \<lparr>bs_ids = ids, bs_markers = positions (tk_mask tk) ids\<rparr>)"
      using order [unfolded n_def options_def]
      by (simp only: build_sequence_def Let_def leD [OF cap [unfolded n_def options_def]] if_False sum.case
          ids_def rest_def st_def head_def encs_def per_def n_def options_def positions_def append_Cons append_Nil append_assoc)
    then show "b = \<lparr>bs_ids = ids, bs_markers = positions (tk_mask tk) ids\<rparr>" "length (positions (tk_mask tk) ids) = n"
      using assms(1) by (auto split: if_splits)
  qed
  have "tk_mask tk \<notin> set head" "tk_mask tk \<notin> set st"
    using assms(4) by (auto simp: head_def st_def fit_state_def dest!: in_set_takeD in_set_dropD split: if_splits)
  then have no: "positions (tk_mask tk) (tk_cls tk # head @ [tk_sep tk]) = []" "positions (tk_mask tk) rest = []"
    using assms(2,3) by (auto intro!: positions_none simp: rest_def)
  have enc: "\<forall>e \<in> set encs. \<exists>body. e = tk_mask tk # body \<and> tk_mask tk \<notin> set body"
    using assms(4) by (auto simp: encs_def encode_option_def dest!: in_set_takeD)
  have "tk_cls tk # head @ tk_sep tk # concat encs @ rest = (tk_cls tk # head @ [tk_sep tk]) @ concat encs @ rest"
    by simp
  then have all: "positions (tk_mask tk) (tk_cls tk # head @ tk_sep tk # concat encs @ rest) = block_starts (length head + 2) encs"
    using no positions_blocks [OF enc, of "length head + 2"] by (simp only: positions_append) simp
  have len: "length encs = length order" by (simp add: encs_def)
  have od: "distinct order" "set order \<subseteq> {..<n}" using check_order_distinct [OF order] by auto
  then have "length order \<le> n" by (metis card_lessThan card_mono distinct_card finite_lessThan)
  moreover have pos: "positions (tk_mask tk) ids = filter (\<lambda>i. i < max_len) (block_starts (length head + 2) encs)"
    by (simp add: ids_def positions_take all)
  moreover have "length (block_starts (length head + 2) encs) = length order"
    by (simp add: block_starts_def len)
  ultimately have "length order = n" and same: "positions (tk_mask tk) ids = block_starts (length head + 2) encs"
    using b(2) filter_full [of n "\<lambda>i. i < max_len" "block_starts (length head + 2) encs"] by auto
  then have "set order = {..<n}" using od by (metis card_lessThan card_subset_eq distinct_card finite_lessThan)
  moreover have "4 \<le> per" by (simp add: per_def option_width_def)
  moreover have "bs_ids b = take max_len (tk_cls tk # head @ tk_sep tk # concat encs @ rest)"
    "bs_markers b = block_starts (length head + 2) encs" "length (bs_ids b) \<le> max_len"
    using b(1) same by (simp_all add: ids_def)
  ultimately show ?thesis
    using cap od(1) unfolding Let_def n_def options_def encs_def encode_option_def by blast
qed

text \<open>A tokenizer of one token per byte, and a question of two options.\<close>

definition byte_tokenizer :: tokenizer where
  "byte_tokenizer = \<lparr>tk_cls = - 1, tk_sep = - 2, tk_mask = - 3, tk_mask_str = ''[MASK]'', tk_encode = map (\<lambda>c. of_char c)\<rparr>"

definition two_options :: typed_question where
  "two_options = question_choice ''q'' [(''a'', None), (''b'', None)]"

lemma byte_tokenizer_clean: "tk_mask byte_tokenizer \<notin> set (tk_encode byte_tokenizer t)"
  by (auto simp: byte_tokenizer_def) (metis of_nat_0_le_iff of_nat_of_char neg_0_le_iff_le not_numeral_le_zero)

theorem sequence_markers_witness:
  "\<exists>b. build_sequence (\<lambda>_. []) byte_tokenizer (J_Str ''s'') two_options 64 32 None False = Inr b \<and>
       length (bs_markers b) = 2 \<and> length (bs_ids b) \<le> 64"
proof -
  have "(case build_sequence (\<lambda>_. []) byte_tokenizer (J_Str ''s'') two_options 64 32 None False of
           Inl _ \<Rightarrow> False | Inr b \<Rightarrow> length (bs_markers b) = 2)"
    by code_simp
  then obtain b where b: "build_sequence (\<lambda>_. []) byte_tokenizer (J_Str ''s'') two_options 64 32 None False = Inr b" "length (bs_markers b) = 2"
    by (auto split: sum.splits)
  have "tk_cls byte_tokenizer \<noteq> tk_mask byte_tokenizer" "tk_sep byte_tokenizer \<noteq> tk_mask byte_tokenizer"
    by (simp_all add: byte_tokenizer_def)
  with sequence_markers [OF b(1)] byte_tokenizer_clean b show ?thesis by blast
qed

text \<open>Without that assumption on the tokenizer an order that leaves an option out is accepted, when the
  state supplies the missing marker token.\<close>

lemma partial_order_accepted:
  "(case build_sequence (\<lambda>_. []) (byte_tokenizer\<lparr>tk_encode := map (\<lambda>c. if c = CHR ''#'' then - 3 else of_char c)\<rparr>)
      (J_Str ''#'') two_options 64 32 (Some [0]) False of
      Inl _ \<Rightarrow> False | Inr b \<Rightarrow> length (bs_markers b) = 2)"
  by code_simp

end
