(* ===== verification/Checkpoint_Cache.thy ===== *)
theory Checkpoint_Cache
  imports Prelude
begin

text \<open>
  The residency state of the decision checkpoints (\<^verbatim>\<open>src/workflow/decide/router.rs\<close>, \<^verbatim>\<open>LruState\<close>): a
  recency list, the resident names and a cap that preloading and attaching may raise.
\<close>

section \<open>State and operations\<close>











section \<open>Invariant\<close>














section \<open>Properties\<close>



end
