(* ===== verification/Executor_Core.thy ===== *)
theory Executor_Core
  imports Json_Value Audit_Link
begin

text \<open>
  The executor core of the delivery loop (\<^verbatim>\<open>crates/brain-executor-core/src/lib.rs\<close>): goals of a brief,
  the quality gate over a checkpoint's evidence, the critic's ceiling, delegation and the artifact
  digest.  The JSON parser (\<^verbatim>\<open>serde_json::from_str\<close>) is an argument; what the derived decoders accept is
  written out, the texts of their errors are not.
\<close>

section \<open>Briefs\<close>

record goal =
  goal_id :: str
  goal_title :: str
  goal_body :: str

definition nl :: char where
  "nl = CHR 0x0A"

definition strip_cr :: "str \<Rightarrow> str" where
  "strip_cr l = (if l \<noteq> [] \<and> last l = CHR 0x0D then butlast l else l)"

text \<open>\<^verbatim>\<open>str::lines\<close>: a line ends at a newline, which goes with a carriage return before it; the text
  after the last newline is a line if it is not empty.\<close>

fun lines_from :: "str \<Rightarrow> str \<Rightarrow> str list" where
  "lines_from cur [] = (if cur = [] then [] else [cur])"
| "lines_from cur (c # cs) =
     (if c = nl then strip_cr cur # lines_from [] cs else lines_from (cur @ [c]) cs)"

definition str_lines :: "str \<Rightarrow> str list" where
  "str_lines s = lines_from [] s"

definition goal_mark :: str where
  "goal_mark = ''@goal:''"

definition strip_prefix :: "str \<Rightarrow> str \<Rightarrow> str option" where
  "strip_prefix p s = (if take (length p) s = p then Some (drop (length p) s) else None)"

definition mk_goal :: "str \<Rightarrow> str \<Rightarrow> goal" where
  "mk_goal i body = \<lparr>goal_id = i, goal_title = i, goal_body = trim body\<rparr>"

fun goal_loop :: "str list \<Rightarrow> goal list \<Rightarrow> str option \<Rightarrow> str \<Rightarrow> goal list" where
  "goal_loop [] goals cur_id cur_body =
     (case cur_id of None \<Rightarrow> goals | Some i \<Rightarrow> goals @ [mk_goal i cur_body])"
| "goal_loop (l # ls) goals cur_id cur_body =
     (case strip_prefix goal_mark l of
        Some rest \<Rightarrow>
          (case cur_id of
             None \<Rightarrow> goal_loop ls goals (Some (trim rest)) cur_body
           | Some i \<Rightarrow> goal_loop ls (goals @ [mk_goal i cur_body]) (Some (trim rest)) [])
      | None \<Rightarrow>
          (case cur_id of
             None \<Rightarrow> goal_loop ls goals cur_id cur_body
           | Some _ \<Rightarrow> goal_loop ls goals cur_id (cur_body @ l @ [nl])))"

definition parse_brief :: "str \<Rightarrow> goal list" where
  "parse_brief brief =
     (if \<not> list_ex (\<lambda>l. take (length goal_mark) l = goal_mark) (str_lines brief)
      then [\<lparr>goal_id = ''G001'', goal_title = ''G001'', goal_body = trim brief\<rparr>]
      else goal_loop (str_lines brief) [] None [])"

section \<open>The quality gate\<close>

record surface_evidence =
  se_kind :: str
  se_receipt :: str

record executor_qa =
  qa_contract_coverage :: str
  qa_surface_evidence :: "surface_evidence list"
  qa_adversarial_cases :: "str list"
  qa_artifact_refs :: "str list"
  qa_iteration :: u32
  qa_inline_evidence :: "str option"

record checkpoint_gate =
  cg_architect_review :: "str option"
  cg_executor_qa :: "executor_qa option"
  cg_critic_review :: "str option"
  cg_replay_exempt :: bool

definition ALLOWED_QA_KEYS :: "str list" where
  "ALLOWED_QA_KEYS = [''contractCoverage'', ''surfaceEvidence'', ''adversarialCases'', ''artifactRefs'', ''iteration'', ''inlineEvidence'']"

definition ALLOWED_GATE_KEYS :: "str list" where
  "ALLOWED_GATE_KEYS = [''architectReview'', ''executorQa'', ''criticReview'', ''replayExempt'']"

text \<open>The derived decoders.  A structure is read from an object, fields that it does not have being
  ignored, or from an array of its fields in order.\<close>

definition dec_opt_str :: "json option \<Rightarrow> str option option" where
  "dec_opt_str v =
     (case v of None \<Rightarrow> Some None | Some J_Null \<Rightarrow> Some None | Some (J_Str s) \<Rightarrow> Some (Some s) | _ \<Rightarrow> None)"

definition dec_str :: "json option \<Rightarrow> str option" where
  "dec_str v = Option.bind v as_str"

fun all_some :: "'a option list \<Rightarrow> 'a list option" where
  "all_some [] = Some []"
| "all_some (None # xs) = None"
| "all_some (Some x # xs) = map_option ((#) x) (all_some xs)"

definition dec_str_list :: "json option \<Rightarrow> str list option" where
  "dec_str_list v =
     (case v of None \<Rightarrow> Some [] | Some (J_Arr xs) \<Rightarrow> all_some (map as_str xs) | _ \<Rightarrow> None)"

definition dec_u32 :: "json option \<Rightarrow> u32 option" where
  "dec_u32 v =
     (case v of Some (J_Int n) \<Rightarrow> if 0 \<le> n \<and> n < 2 ^ 32 then Some (word_of_int n) else None | _ \<Rightarrow> None)"

definition dec_surface :: "json \<Rightarrow> surface_evidence option" where
  "dec_surface v =
     (case v of
        J_Obj fs \<Rightarrow> (case (dec_str (map_of fs ''kind''), dec_str (map_of fs ''receipt'')) of
            (Some k, Some r) \<Rightarrow> Some \<lparr>se_kind = k, se_receipt = r\<rparr> | _ \<Rightarrow> None)
      | J_Arr [J_Str k, J_Str r] \<Rightarrow> Some \<lparr>se_kind = k, se_receipt = r\<rparr>
      | _ \<Rightarrow> None)"

definition dec_surfaces :: "json option \<Rightarrow> surface_evidence list option" where
  "dec_surfaces v = (case v of Some (J_Arr xs) \<Rightarrow> all_some (map dec_surface xs) | _ \<Rightarrow> None)"

definition dec_qa_fields :: "(nat \<Rightarrow> json option) \<Rightarrow> executor_qa option" where
  "dec_qa_fields f =
     (case dec_str (f 0) of None \<Rightarrow> None | Some cov \<Rightarrow>
      case dec_surfaces (f 1) of None \<Rightarrow> None | Some surf \<Rightarrow>
      case dec_str_list (f 2) of None \<Rightarrow> None | Some adv \<Rightarrow>
      case dec_str_list (f 3) of None \<Rightarrow> None | Some refs \<Rightarrow>
      case dec_u32 (f 4) of None \<Rightarrow> None | Some it \<Rightarrow>
      case dec_opt_str (f 5) of None \<Rightarrow> None | Some inl \<Rightarrow>
        Some \<lparr>qa_contract_coverage = cov, qa_surface_evidence = surf, qa_adversarial_cases = adv,
              qa_artifact_refs = refs, qa_iteration = it, qa_inline_evidence = inl\<rparr>)"

definition dec_qa :: "json \<Rightarrow> executor_qa option" where
  "dec_qa v =
     (case v of
        J_Obj fs \<Rightarrow> dec_qa_fields (\<lambda>i. map_of fs (ALLOWED_QA_KEYS ! i))
      | J_Arr xs \<Rightarrow> if length xs > 6 then None else dec_qa_fields (\<lambda>i. if i < length xs then Some (xs ! i) else None)
      | _ \<Rightarrow> None)"

definition dec_gate :: "(str \<times> json) list \<Rightarrow> checkpoint_gate option" where
  "dec_gate fs =
     (case dec_opt_str (map_of fs ''architectReview'') of None \<Rightarrow> None | Some ar \<Rightarrow>
      case (case map_of fs ''executorQa'' of None \<Rightarrow> Some None | Some J_Null \<Rightarrow> Some None | Some v \<Rightarrow> map_option Some (dec_qa v)) of
        None \<Rightarrow> None | Some qa \<Rightarrow>
      case dec_opt_str (map_of fs ''criticReview'') of None \<Rightarrow> None | Some cr \<Rightarrow>
      case (case map_of fs ''replayExempt'' of None \<Rightarrow> Some False | Some v \<Rightarrow> as_bool v) of None \<Rightarrow> None | Some re \<Rightarrow>
        Some \<lparr>cg_architect_review = ar, cg_executor_qa = qa, cg_critic_review = cr, cg_replay_exempt = re\<rparr>)"

datatype gate_error = GE_Json | GE_NotObject | GE_UnknownKey str | GE_Decode | GE_NoLiveSurface

definition LIVE_KINDS :: "str list" where
  "LIVE_KINDS = [''gui'', ''cli'', ''native'', ''api'', ''algorithm'']"

definition has_live :: "executor_qa \<Rightarrow> bool" where
  "has_live qa = list_ex (\<lambda>e. se_kind e \<in> set LIVE_KINDS \<and> se_receipt e \<noteq> []) (qa_surface_evidence qa)"

definition unknown_key :: "str list \<Rightarrow> (str \<times> json) list \<Rightarrow> str option" where
  "unknown_key allowed fs = List.find (\<lambda>k. k \<notin> set allowed) (map fst fs)"

definition validate_gate_json :: "(str \<Rightarrow> json option) \<Rightarrow> str \<Rightarrow> gate_error + checkpoint_gate" where
  "validate_gate_json from_str raw =
     (case from_str raw of None \<Rightarrow> Inl GE_Json | Some v \<Rightarrow>
      case as_object v of None \<Rightarrow> Inl GE_NotObject | Some obj \<Rightarrow>
      case unknown_key ALLOWED_GATE_KEYS obj of Some k \<Rightarrow> Inl (GE_UnknownKey k) | None \<Rightarrow>
      case Option.bind (Option.bind (map_of obj ''executorQa'') as_object) (unknown_key ALLOWED_QA_KEYS) of
        Some k \<Rightarrow> Inl (GE_UnknownKey k) | None \<Rightarrow>
      case dec_gate obj of None \<Rightarrow> Inl GE_Decode | Some gate \<Rightarrow>
      case cg_executor_qa gate of
        None \<Rightarrow> Inl GE_NoLiveSurface
      | Some qa \<Rightarrow> if \<not> has_live qa \<and> \<not> cg_replay_exempt gate then Inl GE_NoLiveSurface else Inr gate)"

section \<open>The critic\<close>

datatype blocker_kind = Resolvable | HumanBlocked

record run_state =
  non_okay_count :: nat
  run_paused :: bool

definition CRITIC_CEILING :: nat where
  "CRITIC_CEILING = 5"

definition run_state_new :: run_state where
  "run_state_new = \<lparr>non_okay_count = 0, run_paused = False\<rparr>"

definition record_verdict :: "bool \<Rightarrow> run_state \<Rightarrow> run_state" where
  "record_verdict okay s =
     (if \<not> okay then
        let s1 = s\<lparr>non_okay_count := non_okay_count s + 1\<rparr> in
        if non_okay_count s1 \<ge> CRITIC_CEILING then s1\<lparr>run_paused := True\<rparr> else s1
      else s)"

definition triage :: "blocker_kind \<Rightarrow> run_state \<Rightarrow> run_state" where
  "triage kind s = (case kind of Resolvable \<Rightarrow> s | HumanBlocked \<Rightarrow> s\<lparr>run_paused := True\<rparr>)"

record aggregate =
  agg_objective :: str
  agg_brief_hash :: str

datatype steering_kind = Add | Split | Reorder | Revise | Annotate | Supersede

definition apply_steering :: "aggregate \<Rightarrow> steering_kind \<Rightarrow> aggregate" where
  "apply_steering agg kind = agg"

definition requires_delegation :: "nat \<Rightarrow> nat \<Rightarrow> bool \<Rightarrow> bool" where
  "requires_delegation files lines par \<longleftrightarrow> files \<ge> 3 \<or> lines \<ge> 200 \<or> par"

definition artifact_hash :: "crypto \<Rightarrow> str \<Rightarrow> str" where
  "artifact_hash cr content = hex_encode (sha256 cr content)"

section \<open>The serialised gate\<close>

text \<open>The derived serialiser, with the keys of each object in order.\<close>

definition enc_opt_str :: "str option \<Rightarrow> json" where
  "enc_opt_str v = (case v of None \<Rightarrow> J_Null | Some s \<Rightarrow> J_Str s)"

definition enc_surface :: "surface_evidence \<Rightarrow> json" where
  "enc_surface e = J_Obj [(''kind'', J_Str (se_kind e)), (''receipt'', J_Str (se_receipt e))]"

definition enc_qa :: "executor_qa \<Rightarrow> json" where
  "enc_qa qa = J_Obj
     ([(''adversarialCases'', J_Arr (map J_Str (qa_adversarial_cases qa))),
       (''artifactRefs'', J_Arr (map J_Str (qa_artifact_refs qa))),
       (''contractCoverage'', J_Str (qa_contract_coverage qa))] @
      (case qa_inline_evidence qa of None \<Rightarrow> [] | Some s \<Rightarrow> [(''inlineEvidence'', J_Str s)]) @
      [(''iteration'', J_Int (uint (qa_iteration qa))),
       (''surfaceEvidence'', J_Arr (map enc_surface (qa_surface_evidence qa)))])"

definition enc_gate :: "checkpoint_gate \<Rightarrow> json" where
  "enc_gate g = J_Obj
     [(''architectReview'', enc_opt_str (cg_architect_review g)),
      (''criticReview'', enc_opt_str (cg_critic_review g)),
      (''executorQa'', case cg_executor_qa g of None \<Rightarrow> J_Null | Some qa \<Rightarrow> enc_qa qa),
      (''replayExempt'', J_Bool (cg_replay_exempt g))]"

lemma all_some_map: "\<forall>x \<in> set xs. f (g x) = Some x \<Longrightarrow> all_some (map (f \<circ> g) xs) = Some xs"
  by (induction xs) auto

lemma dec_surface_enc [simp]: "dec_surface (enc_surface e) = Some e"
  by (cases e) (simp add: dec_surface_def enc_surface_def dec_str_def)

lemma dec_enc_lists [simp]:
  "all_some (map as_str (map J_Str xs)) = Some xs" "all_some (map dec_surface (map enc_surface es)) = Some es"
  using all_some_map [of xs as_str J_Str] all_some_map [of es dec_surface enc_surface] by simp_all

lemma dec_u32_uint [simp]: "dec_u32 (Some (J_Int (uint (w :: u32)))) = Some w"
  using uint_lt2p [of w] by (simp add: dec_u32_def del: uint_lt2p)

lemma dec_opt_str_enc [simp]: "dec_opt_str (Some (enc_opt_str v)) = Some v"
  by (cases v) (simp_all add: dec_opt_str_def enc_opt_str_def)

lemma dec_qa_enc: "dec_qa (enc_qa qa) = Some qa"
  by (cases qa; cases "qa_inline_evidence qa")
     (simp_all add: dec_qa_def enc_qa_def dec_qa_fields_def ALLOWED_QA_KEYS_def dec_str_def dec_surfaces_def dec_str_list_def dec_opt_str_def
        del: map_map)

lemma dec_gate_enc:
  obtains fs where "enc_gate g = J_Obj fs" "dec_gate fs = Some g" "unknown_key ALLOWED_GATE_KEYS fs = None"
    "map_of fs ''executorQa'' = Some (case cg_executor_qa g of None \<Rightarrow> J_Null | Some qa \<Rightarrow> enc_qa qa)"
proof -
  have qa: "(case (case cg_executor_qa g of None \<Rightarrow> J_Null | Some qa \<Rightarrow> enc_qa qa) of
      J_Null \<Rightarrow> Some None | v \<Rightarrow> map_option Some (dec_qa v)) = Some (cg_executor_qa g)"
    using dec_qa_enc by (auto simp: enc_qa_def split: option.splits)
  show ?thesis
    by (rule that [of "case enc_gate g of J_Obj fs \<Rightarrow> fs | _ \<Rightarrow> []"])
       (use qa in \<open>auto simp: enc_gate_def dec_gate_def unknown_key_def ALLOWED_GATE_KEYS_def
          split: option.splits json.splits\<close>)
qed

lemma enc_qa_known: "Option.bind (as_object (enc_qa qa)) (unknown_key ALLOWED_QA_KEYS) = None"
  by (cases "qa_inline_evidence qa") (simp_all add: enc_qa_def unknown_key_def ALLOWED_QA_KEYS_def)

section \<open>Properties\<close>

text \<open>C39. The quality gate reads back what it writes and refuses without evidence.  A gate that is
  serialised and parsed is accepted, unchanged, exactly when it has an executor report and that report names a
  non-empty receipt on a live surface or the gate is exempt from replay; otherwise it is refused for want
  of live evidence and for nothing else.  Conversely whatever is accepted, from any text, has such
  a report.\<close>

theorem gate_roundtrip:
  assumes "from_str raw = Some (enc_gate g)"
  shows "validate_gate_json from_str raw =
      (if (\<exists>qa. cg_executor_qa g = Some qa \<and>
             (cg_replay_exempt g \<or> (\<exists>e \<in> set (qa_surface_evidence qa). se_kind e \<in> set LIVE_KINDS \<and> se_receipt e \<noteq> [])))
       then Inr g else Inl GE_NoLiveSurface) \<and>
    (validate_gate_json from_str other = Inr g' \<longrightarrow>
       (\<exists>qa. cg_executor_qa g' = Some qa \<and>
          (cg_replay_exempt g' \<or> (\<exists>e \<in> set (qa_surface_evidence qa). se_kind e \<in> set LIVE_KINDS \<and> se_receipt e \<noteq> []))))"
proof (rule conjI)
  obtain fs where fs: "enc_gate g = J_Obj fs" "dec_gate fs = Some g" "unknown_key ALLOWED_GATE_KEYS fs = None"
    "map_of fs ''executorQa'' = Some (case cg_executor_qa g of None \<Rightarrow> J_Null | Some qa \<Rightarrow> enc_qa qa)"
    by (rule dec_gate_enc)
  show "validate_gate_json from_str raw =
      (if (\<exists>qa. cg_executor_qa g = Some qa \<and>
             (cg_replay_exempt g \<or> (\<exists>e \<in> set (qa_surface_evidence qa). se_kind e \<in> set LIVE_KINDS \<and> se_receipt e \<noteq> [])))
       then Inr g else Inl GE_NoLiveSurface)"
    using assms fs enc_qa_known
    by (cases "cg_executor_qa g") (auto simp: validate_gate_json_def has_live_def list_ex_iff)
next
  show "validate_gate_json from_str other = Inr g' \<longrightarrow>
       (\<exists>qa. cg_executor_qa g' = Some qa \<and>
          (cg_replay_exempt g' \<or> (\<exists>e \<in> set (qa_surface_evidence qa). se_kind e \<in> set LIVE_KINDS \<and> se_receipt e \<noteq> [])))"
    by (auto simp: validate_gate_json_def has_live_def list_ex_iff split: option.splits if_splits)
qed

definition demo_gate :: checkpoint_gate where
  "demo_gate = \<lparr>cg_architect_review = None, cg_executor_qa = Some \<lparr>qa_contract_coverage = ''all'',
     qa_surface_evidence = [\<lparr>se_kind = ''cli'', se_receipt = ''r''\<rparr>], qa_adversarial_cases = [], qa_artifact_refs = [],
     qa_iteration = 1, qa_inline_evidence = None\<rparr>, cg_critic_review = None, cg_replay_exempt = False\<rparr>"

theorem gate_roundtrip_witness:
  "validate_gate_json (\<lambda>_. Some (enc_gate demo_gate)) ''x'' = Inr demo_gate"
  using gate_roundtrip [of "\<lambda>_. Some (enc_gate demo_gate)" "''x''" demo_gate]
  by (simp add: demo_gate_def LIVE_KINDS_def)

datatype critic_event = Ev_Verdict bool | Ev_Blocker blocker_kind

fun critic_step :: "critic_event \<Rightarrow> run_state \<Rightarrow> run_state" where
  "critic_step (Ev_Verdict okay) s = record_verdict okay s"
| "critic_step (Ev_Blocker k) s = triage k s"

text \<open>The critic pauses at the ceiling.  After any history of verdicts and blockers the run is paused
  exactly when five verdicts were not okay or a blocker needed a human, whatever came in between.\<close>

lemma critic_pauses:
  "(let s = fold critic_step evs run_state_new; bad = length (filter (\<lambda>e. e = Ev_Verdict False) evs) in
    non_okay_count s = bad \<and>
    (run_paused s \<longleftrightarrow> CRITIC_CEILING \<le> bad \<or> Ev_Blocker HumanBlocked \<in> set evs))"
proof (induction evs rule: rev_induct)
  case Nil
  then show ?case by (simp add: run_state_new_def CRITIC_CEILING_def)
next
  case (snoc e evs)
  then show ?case
    by (cases e; cases "e = Ev_Verdict False")
       (auto simp: Let_def record_verdict_def triage_def split: blocker_kind.splits)
qed

definition goal_text :: "str \<times> str list \<Rightarrow> str list" where
  "goal_text g = (goal_mark @ fst g) # snd g"

definition unlines :: "str list \<Rightarrow> str" where
  "unlines ls = concat (map (\<lambda>l. l @ [nl]) ls)"

definition plain_line :: "str \<Rightarrow> bool" where
  "plain_line l \<longleftrightarrow> nl \<notin> set l \<and> (l = [] \<or> last l \<noteq> CHR 0x0D)"

lemma lines_from_line: "nl \<notin> set l \<Longrightarrow> lines_from cur (l @ nl # cs) = strip_cr (cur @ l) # lines_from [] cs"
  by (induction l arbitrary: cur) auto

lemma str_lines_unlines: "\<forall>l \<in> set ls. plain_line l \<Longrightarrow> str_lines (unlines ls) = ls"
  unfolding str_lines_def unlines_def
  by (induction ls) (auto simp: lines_from_line plain_line_def strip_cr_def)

lemma goal_loop_body:
  "\<forall>l \<in> set ls. strip_prefix goal_mark l = None \<Longrightarrow>
   goal_loop (ls @ rest) goals (Some i) body = goal_loop rest goals (Some i) (body @ unlines ls)"
  by (induction ls arbitrary: body) (auto simp: unlines_def)

lemma goal_loop_pre:
  "\<forall>l \<in> set ls. strip_prefix goal_mark l = None \<Longrightarrow> goal_loop (ls @ rest) goals None body = goal_loop rest goals None body"
  by (induction ls) auto

lemma strip_goal_mark [simp]: "strip_prefix goal_mark (goal_mark @ t) = Some t"
  by (simp add: strip_prefix_def)

lemma goal_loop_goals:
  assumes "\<forall>g \<in> set gs. \<forall>l \<in> set (snd g). strip_prefix goal_mark l = None"
  shows "goal_loop (concat (map goal_text gs)) goals (Some i) body =
    goals @ mk_goal i body # map (\<lambda>g. mk_goal (trim (fst g)) (unlines (snd g))) gs"
  using assms
proof (induction gs arbitrary: goals i body)
  case (Cons g gs)
  then show ?case
    using goal_loop_body [of "snd g" "concat (map goal_text gs)" "goals @ [mk_goal i body]" "trim (fst g)" "[]"]
    by (simp add: goal_text_def [of g])
qed simp

text \<open>A brief with goals parses into exactly its goals.  For a brief in lines without carriage
  returns, the lines before the first goal are dropped, each goal line opens a goal named by its trimmed
  text, and the body of a goal is the trimmed text of the lines up to the next; a brief without a goal line
  is one goal with the whole trimmed text.\<close>

lemma brief_goals:
  assumes "\<forall>l \<in> set (pre @ concat (map goal_text gs)). plain_line l"
    and "\<forall>l \<in> set pre. strip_prefix goal_mark l = None"
    and "\<forall>g \<in> set gs. \<forall>l \<in> set (snd g). strip_prefix goal_mark l = None"
  shows "parse_brief (unlines (pre @ concat (map goal_text gs))) =
    (if gs = [] then [\<lparr>goal_id = ''G001'', goal_title = ''G001'', goal_body = trim (unlines pre)\<rparr>]
     else map (\<lambda>g. mk_goal (trim (fst g)) (unlines (snd g))) gs)"
proof (cases gs)
  case Nil
  then show ?thesis using assms str_lines_unlines [of pre]
    by (auto simp: parse_brief_def list_ex_iff strip_prefix_def split: if_splits)
next
  case (Cons g gs')
  define ls where "ls = pre @ concat (map goal_text gs)"
  have "goal_mark @ fst g \<in> set ls" by (simp add: ls_def Cons goal_text_def)
  then have "list_ex (\<lambda>l. take (length goal_mark) l = goal_mark) ls" by (auto simp: list_ex_iff intro!: bexI)
  then have "parse_brief (unlines ls) = goal_loop ls [] None []"
    using str_lines_unlines [of ls] assms(1) by (simp add: parse_brief_def ls_def)
  also have "\<dots> = goal_loop (concat (map goal_text gs)) [] None []"
    using goal_loop_pre [OF assms(2)] by (simp add: ls_def)
  also have "\<dots> = map (\<lambda>g. mk_goal (trim (fst g)) (unlines (snd g))) gs"
    using goal_loop_body [of "snd g" "concat (map goal_text gs')" "[]" "trim (fst g)" "[]"] goal_loop_goals [of gs'] assms(3)
    by (simp add: Cons goal_text_def [of g])
  finally show ?thesis using Cons by (simp add: ls_def)
qed

lemma brief_goals_witness:
  "parse_brief (unlines ([''intro''] @ concat (map goal_text [('' G1 '', [''do it'']), (''G2'', [])]))) =
    [mk_goal ''G1'' (unlines [''do it'']), mk_goal ''G2'' []]"
proof -
  have "trim '' G1 '' = ''G1''" "trim ''G2'' = ''G2''" by code_simp+
  then show ?thesis
    using brief_goals [of "[''intro'']" "[('' G1 '', [''do it'']), (''G2'', [])]"]
    by (simp add: goal_text_def plain_line_def nl_def goal_mark_def strip_prefix_def) (simp add: unlines_def)
qed

end
