(* ===== verification/Spec2Isabelle.thy ===== *)
theory Spec2Isabelle
  imports Audit_Properties Delivery_Properties Consensus_Core Hostcall Harness_Proofs Workflow_State
    Session_Tree_Properties Evidence_Core Rate_Limit Compaction Chunker_Properties Workflow_Run Decide_Sequence Checkpoint_Cache
    Executor_Core Fence
begin

text \<open>
  A verification library for the decision and evidence cores of brain-server.

  The program is one server process over a SQLite store, with an engine SDK
  (\<^verbatim>\<open>crates/brain-engine-sdk\<close>) that extensions and agent loops are written against and a set of pure
  decision crates (\<^verbatim>\<open>crates/brain-*-core\<close>) that the server calls.  A request passes the limiter of the
  HTTP edge; documents are cut into chunks before they are stored, and what is retrieved of them is
  fenced before an agent reads it; an agent turn runs inside the
  harness, its host calls pass the capability and trust policy, its log is the session tree, and what
  it may keep of its history is decided by the prompt and compaction rules; a change is delivered
  through the consensus and delivery cores, which decide on content-addressed evidence; and every
  decision is written to the audit chain.

  Theories and sources, in the order of the calls above:

  \<^item> \<^verbatim>\<open>Prelude\<close>, \<^verbatim>\<open>Json_Value\<close>: the vocabulary.  A Rust string is its UTF-8 bytes, a fallible function
    returns a sum with the error on the left, a machine integer is a word or an integer with the
    saturation or wrap-around written out, a \<^verbatim>\<open>serde_json::Value\<close> is the datatype \<^verbatim>\<open>json\<close>.  The locales
    for closed wire vocabularies and for finite machines are here.
  \<^item> \<^verbatim>\<open>Rate_Limit\<close> (\<^verbatim>\<open>src/http_limit.rs\<close>): the per-address limiter with its window, cap and eviction, and
    the connection tracker.  It refines the ideal sliding window and it recovers.
  \<^item> \<^verbatim>\<open>Chunker\<close>, \<^verbatim>\<open>Chunker_Proofs\<close>, \<^verbatim>\<open>Chunker_Properties\<close> (\<^verbatim>\<open>src/chunker.rs\<close>): the Markdown chunker over the parser's event stream.
  \<^item> \<^verbatim>\<open>Fence\<close> (\<^verbatim>\<open>src/fence.rs\<close>, \<^verbatim>\<open>src/strip_invisible.rs\<close>): the envelope around retrieved text that an agent reads as
    data.  The reference strip reaches a fixed point; the sentinel strip does not, and the fence can be forged.
  \<^item> \<^verbatim>\<open>Hostcall\<close> (\<^verbatim>\<open>capability.rs\<close>, \<^verbatim>\<open>trust.rs\<close>, \<^verbatim>\<open>hostcall.rs\<close> of the SDK): postures, extension policy and
    dispatch.  No handler runs without a grant, and the order of the policy's rules is exact.
  \<^item> \<^verbatim>\<open>Harness\<close>, \<^verbatim>\<open>Harness_Proofs\<close> (\<^verbatim>\<open>harness.rs\<close>): phases, turn tokens, queues, settlement.  The invariant
    is by rule induction over all sequences of operations; only the token of the open turn acts on it.
  \<^item> \<^verbatim>\<open>Session_Tree\<close> and its proofs and properties (\<^verbatim>\<open>harness/tree.rs\<close>): the append-only log of a session
    with branches, its replay from the log and the recursion that lays it out.
  \<^item> \<^verbatim>\<open>Compaction\<close> (\<^verbatim>\<open>prompt.rs\<close>, \<^verbatim>\<open>harness/compaction.rs\<close>): the plan that folds old history, and the admission
    decision with its closed JSON form and evidence.
  \<^item> \<^verbatim>\<open>Workflow_State\<close> (\<^verbatim>\<open>workflow_state.rs\<close>): the routing table of a run and the budgeted context window.
  \<^item> \<^verbatim>\<open>Workflow_Run\<close> (\<^verbatim>\<open>workflow.rs\<close>, \<^verbatim>\<open>tools.rs\<close>): admission of runs under the ceiling, the result of a run that
    several threads may settle, cancellation, disposal and the tool that waits for a run.
  \<^item> \<^verbatim>\<open>Decide_Sequence\<close>, \<^verbatim>\<open>Checkpoint_Cache\<close> (\<^verbatim>\<open>src/workflow/decide\<close>): the question schema and token sequence of the
    decision head, and the residency cache of its checkpoints.
  \<^item> \<^verbatim>\<open>Executor_Core\<close> (\<^verbatim>\<open>crates/brain-executor-core\<close>): briefs, the quality gate and the critic.
  \<^item> \<^verbatim>\<open>Consensus_Core\<close> (\<^verbatim>\<open>crates/brain-consensus-core\<close>): the bounded review rounds of an artifact.
  \<^item> \<^verbatim>\<open>Delivery_Core\<close>, \<^verbatim>\<open>Delivery_Proofs\<close>, \<^verbatim>\<open>Delivery_Canonical\<close>, \<^verbatim>\<open>Delivery_Properties\<close>
    (\<^verbatim>\<open>crates/brain-delivery-core\<close>): promotion gate, attestation chain, resource ledger, canonical bytes,
    replay comparison and the two state machines.
  \<^item> \<^verbatim>\<open>Evidence_Core\<close> (\<^verbatim>\<open>crates/brain-evidence-core\<close>): content identifiers and the resolver that checks what
    it loads against them.
  \<^item> \<^verbatim>\<open>Audit_Link\<close>, \<^verbatim>\<open>Audit_Store\<close>, \<^verbatim>\<open>Audit_Proofs\<close>, \<^verbatim>\<open>Audit_Safety\<close>, \<^verbatim>\<open>Audit_Tamper\<close>, \<^verbatim>\<open>Audit_Properties\<close>
    (\<^verbatim>\<open>src/audit/mod.rs\<close>): the hash chain, its table and pins, append, prune, re-anchoring, bootstrap and
    the verification walk.  Every reachable store verifies, and two stores that verify under the same
    pins carry the same evidence or exhibit a collision of the digest.

  Parameters.  SHA-256 and HMAC-SHA-256, the SQL engine's failures
  and the outcome of a \<^verbatim>\<open>COMMIT\<close>, the clock, the iteration order of a \<^verbatim>\<open>HashMap\<close>, the host call handlers,
  the Markdown parser, the tokenizer, the JSON parser and printer, and what the
  other threads do between two steps of a waiting call are arguments of the definitions that use them.
  Nothing is assumed of a digest: a statement that needs its injectivity gives the collision instead.

  Fuel.  \<^verbatim>\<open>get_tree\<close> takes the number of entries plus one, which a tree whose parent links end never
  exhausts; the loop that cuts an oversized line takes the length of the line, since a cut takes at
  least one byte.  Other loops are structural or have a measure.

  Not modelled: the HTTP handlers and routers, the SQL schema, migrations and queries outside the audit
  store, the connectors, webhooks, channels and CLI programs (input and output around the cores), the
  search and embedding numerics, the model providers and the run loop that talks to them, the process
  sandbox, and the threads and locks around the cores: an operation that the code runs under a lock is
  one step here, and the waiting calls of \<^verbatim>\<open>Workflow_Run\<close> are explicit interleavings of such steps.  The
  remaining pure parts (the interview, troubleshooting, aftersales and care cores, the scheduler's planning, the gold-set admission and the pure modules of the SDK) are next
  in the order of this library.
\<close>

end
